theory Spec2Isabelle
  imports Complex_Main
begin

section \<open>Data model\<close>

text \<open>
  The stroke font engine (common/gal/stroke_font.cpp) computes with C++ \<open>double\<close>s. A
  coordinate that the engine hands to the GAL is modelled as the real number that the double
  stands for, and the sums and products of coordinates are exact. Rounding is modelled where
  it decides more than the last digits of a coordinate: where a \<open>double\<close> is turned into an
  \<open>int\<close> (the line height), and where two computations of one quantity are compared (the
  width of a line and the advances of the pen). There the rounding of a real number to
  a \<open>double\<close> is a parameter, \<open>rnd\<close>, applied to the result of every operation on its own
  (no product is fused with a sum); infinities and NaNs are not values of the model. The
  constants of the class follow.
\<close>

definition INTERLINE_PITCH_RATIO :: real where "INTERLINE_PITCH_RATIO = 1.5"
definition OVERBAR_POSITION_FACTOR :: real where "OVERBAR_POSITION_FACTOR = 1.22"
definition BOLD_FACTOR :: real where "BOLD_FACTOR = 1.3"
definition STROKE_FONT_SCALE :: real where "STROKE_FONT_SCALE = 1 / 21"
definition ITALIC_TILT :: real where "ITALIC_TILT = 1 / 8"
definition FONT_OFFSET :: int where "FONT_OFFSET = - 10"

text \<open>
  \<open>VECTOR2D\<close> and \<open>BOX2D\<close> are declared in math/vector2d.h and math/box2.h, which are not
  among the sources at hand. A vector is its two coordinates (the fields \<open>x\<close> and \<open>y\<close>, here
  \<open>vx\<close> and \<open>vy\<close>); a box is its origin and its size, and \<open>GetEnd\<close> is the origin moved by
  the size. A default-constructed vector is the zero vector, and a default-constructed box
  has the zero vector for its origin and for its size.
\<close>

datatype VECTOR2D = VECTOR2D (vx: real) (vy: real)

datatype BOX2D = BOX2D (m_Pos: VECTOR2D) (m_Size: VECTOR2D)

definition GetEnd :: "BOX2D \<Rightarrow> VECTOR2D" where
  "GetEnd b = VECTOR2D (vx (m_Pos b) + vx (m_Size b)) (vy (m_Pos b) + vy (m_Size b))"

definition GetY :: "BOX2D \<Rightarrow> real" where
  "GetY b = vy (m_Pos b)"

type_synonym GLYPH = "VECTOR2D list list"

record STROKE_FONT =
  m_glyphs :: "GLYPH list"
  m_glyphBoundingBoxes :: "BOX2D list"

text \<open>
  Reading a container or a C string outside its extent is undefined behaviour in C++; the model
  makes it a value, as it does for the exception of a \<open>resize\<close> to a negative size.
\<close>

datatype error = OutOfBounds | LengthError

definition elem_at :: "'a list \<Rightarrow> int \<Rightarrow> error + 'a" where
  "elem_at xs i = (if 0 \<le> i \<and> i < int (length xs) then Inr (xs ! nat i) else Inl OutOfBounds)"

text \<open>
  An \<open>int\<close> has 32 bits. Where its range matters the model computes with the mathematical
  integers and cuts every result to 32 bits in two's complement, as the machine does.
  (In C++ the overflow of a signed \<open>int\<close> is undefined behaviour.)
\<close>

definition wrap32 :: "int \<Rightarrow> int" where
  "wrap32 i = (i + 2 ^ 31) mod 2 ^ 32 - 2 ^ 31"

subsection \<open>The drawing interface\<close>

text \<open>
  The GAL is an abstract interface (gal/graphics_abstraction_layer.h); the font engine only
  reads its text attributes and calls its methods. The model keeps the attributes that the
  engine reads and the sequence of method calls it has received, oldest first.
\<close>

datatype EDA_TEXT_HJUSTIFY_T =
  GR_TEXT_HJUSTIFY_LEFT | GR_TEXT_HJUSTIFY_CENTER | GR_TEXT_HJUSTIFY_RIGHT

datatype EDA_TEXT_VJUSTIFY_T =
  GR_TEXT_VJUSTIFY_TOP | GR_TEXT_VJUSTIFY_CENTER | GR_TEXT_VJUSTIFY_BOTTOM

datatype gal_call =
    SaveCall
  | RestoreCall
  | TranslateCall VECTOR2D
  | RotateCall real
  | SetIsStrokeCall bool
  | SetLineWidthCall real
  | DrawLineCall VECTOR2D VECTOR2D
  | DrawPolylineCall "VECTOR2D list"

record GAL =
  glyphSize :: VECTOR2D
  lineWidth :: real
  fontBold :: bool
  fontItalic :: bool
  textMirrored :: bool
  horizontalJustify :: EDA_TEXT_HJUSTIFY_T
  verticalJustify :: EDA_TEXT_VJUSTIFY_T
  isStrokeEnabled :: bool
  calls :: "gal_call list"

definition issue :: "gal_call \<Rightarrow> GAL \<Rightarrow> GAL" where
  "issue c g = g\<lparr>calls := calls g @ [c]\<rparr>"

definition Save :: "GAL \<Rightarrow> GAL" where
  "Save g = issue SaveCall g"

definition Restore :: "GAL \<Rightarrow> GAL" where
  "Restore g = issue RestoreCall g"

definition Translate :: "VECTOR2D \<Rightarrow> GAL \<Rightarrow> GAL" where
  "Translate v g = issue (TranslateCall v) g"

definition Rotate :: "real \<Rightarrow> GAL \<Rightarrow> GAL" where
  "Rotate a g = issue (RotateCall a) g"

definition SetIsStroke :: "bool \<Rightarrow> GAL \<Rightarrow> GAL" where
  "SetIsStroke b g = issue (SetIsStrokeCall b) (g\<lparr>isStrokeEnabled := b\<rparr>)"

definition SetLineWidth :: "real \<Rightarrow> GAL \<Rightarrow> GAL" where
  "SetLineWidth w g = issue (SetLineWidthCall w) (g\<lparr>lineWidth := w\<rparr>)"

definition DrawLine :: "VECTOR2D \<Rightarrow> VECTOR2D \<Rightarrow> GAL \<Rightarrow> GAL" where
  "DrawLine a b g = issue (DrawLineCall a b) g"

definition DrawPolyline :: "VECTOR2D list \<Rightarrow> GAL \<Rightarrow> GAL" where
  "DrawPolyline ps g = issue (DrawPolylineCall ps) g"

section \<open>The stroke font engine (common/gal/stroke\_font.cpp)\<close>

subsection \<open>Loading a glyph table\<close>

text \<open>
  A glyph string is a C string. It is the list of its characters before the terminator, each
  as the \<open>int\<close> it is promoted to; reading at the length of the list gives the terminating
  0, and reading further leaves the array.
\<close>

type_synonym cstring = "int list"

definition char_at :: "cstring \<Rightarrow> nat \<Rightarrow> error + int" where
  "char_at s i =
     (if i < length s then Inr (s ! i)
      else if i = length s then Inr 0
      else Inl OutOfBounds)"

definition ord :: "char \<Rightarrow> int" where
  "ord c = int (of_char c)"

text \<open>The locals of one iteration of the loop over the glyphs.\<close>

record glyph_locals =
  glyph :: GLYPH
  glyphStartX :: real
  glyphEndX :: real
  glyphBoundingX :: VECTOR2D
  pointList :: "VECTOR2D list"

definition glyph_locals_init :: glyph_locals where
  "glyph_locals_init =
     \<lparr>glyph = [], glyphStartX = 0, glyphEndX = 0, glyphBoundingX = VECTOR2D 0 0,
      pointList = []\<rparr>"

text \<open>The body of the \<open>while\<close> loop for the two characters read at index \<open>i\<close>.\<close>

definition decode_pair :: "nat \<Rightarrow> int \<Rightarrow> int \<Rightarrow> glyph_locals \<Rightarrow> glyph_locals" where
  "decode_pair i c0 c1 st =
     (if i < 2 then
        (let gsx = real_of_int (c0 - ord CHR ''R'') * STROKE_FONT_SCALE;
             gex = real_of_int (c1 - ord CHR ''R'') * STROKE_FONT_SCALE
         in st\<lparr>glyphStartX := gsx, glyphEndX := gex,
                glyphBoundingX := VECTOR2D 0 (gex - gsx)\<rparr>)
      else if c0 = ord CHR '' '' \<and> c1 = ord CHR ''R'' then
        st\<lparr>glyph := (if length (pointList st) > 0 then glyph st @ [pointList st]
                      else glyph st),
           pointList := []\<rparr>
      else
        st\<lparr>pointList := pointList st @
             [VECTOR2D (real_of_int (c0 - ord CHR ''R'') * STROKE_FONT_SCALE - glyphStartX st)
                       (real_of_int (c1 - ord CHR ''R'' + FONT_OFFSET) * STROKE_FONT_SCALE)]\<rparr>)"

text \<open>
  The \<open>while\<close> loop: it stops at a 0 found at index \<open>i\<close>, reads the characters at \<open>i\<close> and
  \<open>i + 1\<close>, and goes on at \<open>i + 2\<close>.
\<close>

function decode_glyph :: "cstring \<Rightarrow> nat \<Rightarrow> glyph_locals \<Rightarrow> error + glyph_locals" where
  "decode_glyph s i st =
     (case char_at s i of
        Inl e \<Rightarrow> Inl e
      | Inr c0 \<Rightarrow>
          if c0 = 0 then Inr st
          else (case char_at s (i + 1) of
                  Inl e \<Rightarrow> Inl e
                | Inr c1 \<Rightarrow> decode_glyph s (i + 2) (decode_pair i c0 c1 st)))"
  by pat_completeness auto
termination
  by (relation "measure (\<lambda>(s, i, st). Suc (length s) - i)")
     (auto simp: char_at_def split: if_splits)

declare decode_glyph.simps [simp del]

text \<open>
  \<open>BOX2D::Compute\<close>, which sets a box to the extent of a list of points, belongs to
  math/box2.h; it is a parameter of what follows.
\<close>

definition computeBoundingBox ::
  "(VECTOR2D list \<Rightarrow> BOX2D) \<Rightarrow> GLYPH \<Rightarrow> VECTOR2D \<Rightarrow> BOX2D" where
  "computeBoundingBox Compute aGLYPH aGLYPHBoundingX =
     Compute ([VECTOR2D (vx aGLYPHBoundingX) 0, VECTOR2D (vy aGLYPHBoundingX) 0] @
              map (\<lambda>p. VECTOR2D (vx aGLYPHBoundingX) (vy p)) (concat aGLYPH))"

text \<open>The glyph that one table entry yields, with the pair that bounds it in x.\<close>

definition load_glyph :: "cstring \<Rightarrow> error + GLYPH \<times> VECTOR2D" where
  "load_glyph s =
     (case decode_glyph s 0 glyph_locals_init of
        Inl e \<Rightarrow> Inl e
      | Inr st \<Rightarrow>
          Inr (if length (pointList st) > 0 then glyph st @ [pointList st] else glyph st,
               glyphBoundingX st))"

text \<open>The \<open>for\<close> loop over the table, from entry \<open>j\<close> on.\<close>

function load_loop ::
  "(VECTOR2D list \<Rightarrow> BOX2D) \<Rightarrow> cstring list \<Rightarrow> int \<Rightarrow> int \<Rightarrow> STROKE_FONT
     \<Rightarrow> error + STROKE_FONT" where
  "load_loop Compute aNewStrokeFont aNewStrokeFontSize j F =
     (if j < aNewStrokeFontSize then
        (case elem_at aNewStrokeFont j of
           Inl e \<Rightarrow> Inl e
         | Inr s \<Rightarrow>
             (case load_glyph s of
                Inl e \<Rightarrow> Inl e
              | Inr (gl, bx) \<Rightarrow>
                  load_loop Compute aNewStrokeFont aNewStrokeFontSize (j + 1)
                    (F\<lparr>m_glyphs := (m_glyphs F)[nat j := gl],
                       m_glyphBoundingBoxes :=
                         (m_glyphBoundingBoxes F)[nat j := computeBoundingBox Compute gl bx]\<rparr>)))
      else Inr F)"
  by pat_completeness auto
termination
  by (relation "measure (\<lambda>(C, t, n, j, F). nat (n - j))") auto

declare load_loop.simps [simp del]

text \<open>
  \<open>LoadNewStrokeFont\<close>. Both containers are cleared and resized to the given size (a
  negative \<open>int\<close> becomes a size beyond any container's maximum, and \<open>resize\<close> throws), then
  filled entry by entry. The only \<open>return\<close> is \<open>return true\<close>.
\<close>

definition LoadNewStrokeFont ::
  "(VECTOR2D list \<Rightarrow> BOX2D) \<Rightarrow> cstring list \<Rightarrow> int \<Rightarrow> STROKE_FONT
     \<Rightarrow> error + bool \<times> STROKE_FONT" where
  "LoadNewStrokeFont Compute aNewStrokeFont aNewStrokeFontSize F =
     (if aNewStrokeFontSize < 0 then Inl LengthError
      else
        (case load_loop Compute aNewStrokeFont aNewStrokeFontSize 0
                (F\<lparr>m_glyphs := replicate (nat aNewStrokeFontSize) [],
                   m_glyphBoundingBoxes :=
                     replicate (nat aNewStrokeFontSize) (BOX2D (VECTOR2D 0 0) (VECTOR2D 0 0))\<rparr>) of
           Inl e \<Rightarrow> Inl e
         | Inr F' \<Rightarrow> Inr (True, F')))"

subsection \<open>The glyph format in the words of the specification\<close>

text \<open>
  A glyph string is a sequence of pairs of characters. The first pair bounds the glyph in x.
  Of the pairs after it, the pair of a space and an \<open>R\<close> ends the current stroke and starts
  a new one, and any other pair adds a point to the current stroke. A stroke is a non-empty
  run of points.
\<close>

fun pairs :: "'a list \<Rightarrow> ('a \<times> 'a) list" where
  "pairs (a # b # rest) = (a, b) # pairs rest"
| "pairs _ = []"

definition spec_coordinate :: "int \<Rightarrow> real" where
  "spec_coordinate c = real_of_int (c - ord CHR ''R'') * (1 / 21)"

definition spec_point :: "real \<Rightarrow> int \<times> int \<Rightarrow> VECTOR2D" where
  "spec_point startX p =
     VECTOR2D (spec_coordinate (fst p) - startX)
              (real_of_int (snd p - ord CHR ''R'' - 10) * (1 / 21))"

definition spec_pair ::
  "real \<Rightarrow> VECTOR2D list list \<times> VECTOR2D list \<Rightarrow> int \<times> int
     \<Rightarrow> VECTOR2D list list \<times> VECTOR2D list" where
  "spec_pair startX acc p =
     (if p = (ord CHR '' '', ord CHR ''R'') then (fst acc @ [snd acc], [])
      else (fst acc, snd acc @ [spec_point startX p]))"

definition spec_glyph :: "cstring \<Rightarrow> GLYPH" where
  "spec_glyph s =
     (let acc = foldl (spec_pair (spec_coordinate (s ! 0))) ([], []) (pairs (drop 2 s))
      in filter (\<lambda>stroke. stroke \<noteq> []) (fst acc @ [snd acc]))"

subsection \<open>Line height and overbar position\<close>

text \<open>
  The line height is a \<open>double\<close> that is rounded to an \<open>int\<close>, so the product and the sum
  are rounded as the code rounds them. (\<open>INTERLINE_PITCH_RATIO\<close>, 1.5, is a \<open>double\<close>.)
\<close>

definition GetInterline :: "(real \<Rightarrow> real) \<Rightarrow> real \<Rightarrow> real \<Rightarrow> real" where
  "GetInterline rnd aGlyphHeight aGlyphThickness =
     rnd (rnd (aGlyphHeight * INTERLINE_PITCH_RATIO) + aGlyphThickness)"

text \<open>
  \<open>KiROUND\<close>, the rounding of a \<open>double\<close> to an \<open>int\<close>, is a macro of another header and a
  parameter here. What it returns is held in an \<open>int\<close>.
\<close>

definition getInterline :: "(real \<Rightarrow> real) \<Rightarrow> (real \<Rightarrow> int) \<Rightarrow> GAL \<Rightarrow> int" where
  "getInterline rnd KiROUND g =
     wrap32 (KiROUND (GetInterline rnd (vy (glyphSize g)) (lineWidth g)))"

definition ComputeOverbarVerticalPosition :: "real \<Rightarrow> real \<Rightarrow> real" where
  "ComputeOverbarVerticalPosition aGlyphHeight aGlyphThickness =
     aGlyphHeight * OVERBAR_POSITION_FACTOR + aGlyphThickness"

definition computeOverbarVerticalPosition :: "GAL \<Rightarrow> real" where
  "computeOverbarVerticalPosition g =
     ComputeOverbarVerticalPosition (vy (glyphSize g)) (lineWidth g)"

subsection \<open>Measuring a line\<close>

text \<open>
  A text is the sequence of code points that \<open>UTF8::uni_iter\<close> yields. The iterator yields
  an \<open>unsigned\<close>; the difference \<open>*it - ' '\<close> is converted to \<open>int\<close>, and for a table of
  fewer than \<open>2^31\<close> glyphs the test that follows selects the same index as the test on the
  mathematical difference does.
\<close>

type_synonym UTF8 = "nat list"

definition tilde :: nat where
  "tilde = of_char CHR ''~''"

text \<open>The index in the tables for a code point (written out twice in the source).\<close>

definition glyph_index :: "STROKE_FONT \<Rightarrow> nat \<Rightarrow> int" where
  "glyph_index F ch =
     (let dd = int ch - ord CHR '' ''
      in if dd \<ge> int (length (m_glyphBoundingBoxes F)) \<or> dd < 0
         then ord CHR ''?'' - ord CHR '' ''
         else dd)"

record limits_locals =
  result_x :: real
  ymax :: real
  ymin :: real

text \<open>
  The body of the loop of \<open>ComputeStringBoundaryLimits\<close> after the test for a tilde.
  The two flags say whether \<open>aTopLimit\<close> and \<open>aBottomLimit\<close> are non-null.
\<close>

definition limits_char ::
  "STROKE_FONT \<Rightarrow> bool \<Rightarrow> bool \<Rightarrow> nat \<Rightarrow> limits_locals \<Rightarrow> error + limits_locals" where
  "limits_char F aTopLimit aBottomLimit ch st =
     (case elem_at (m_glyphBoundingBoxes F) (glyph_index F ch) of
        Inl e \<Rightarrow> Inl e
      | Inr box \<Rightarrow>
          Inr (st\<lparr>result_x := result_x st + vx (GetEnd box),
                  ymax := (if aTopLimit
                           then max (max (ymax st) (GetY box)) (vy (GetEnd box))
                           else ymax st),
                  ymin := (if aBottomLimit
                           then min (min (ymin st) (GetY box)) (vy (GetEnd box))
                           else ymin st)\<rparr>))"

text \<open>
  The loop over the code points. A tilde moves on to the next code point, and ends the loop
  when there is none. (The assertion that no code point is a line feed is a debugging aid
  and has no effect on the result.)
\<close>

fun limits_loop ::
  "STROKE_FONT \<Rightarrow> bool \<Rightarrow> bool \<Rightarrow> UTF8 \<Rightarrow> limits_locals \<Rightarrow> error + limits_locals" where
  "limits_loop F aTopLimit aBottomLimit [] st = Inr st"
| "limits_loop F aTopLimit aBottomLimit (ch # rest) st =
     (if ch = tilde then
        (case rest of
           [] \<Rightarrow> Inr st
         | ch' # rest' \<Rightarrow>
             (case limits_char F aTopLimit aBottomLimit ch' st of
                Inl e \<Rightarrow> Inl e
              | Inr st' \<Rightarrow> limits_loop F aTopLimit aBottomLimit rest' st'))
      else
        (case limits_char F aTopLimit aBottomLimit ch st of
           Inl e \<Rightarrow> Inl e
         | Inr st' \<Rightarrow> limits_loop F aTopLimit aBottomLimit rest st'))"

record string_limits =
  result :: VECTOR2D
  topLimit :: "real option"
  bottomLimit :: "real option"

definition ComputeStringBoundaryLimits ::
  "STROKE_FONT \<Rightarrow> GAL \<Rightarrow> UTF8 \<Rightarrow> VECTOR2D \<Rightarrow> real \<Rightarrow> bool \<Rightarrow> bool
     \<Rightarrow> error + string_limits" where
  "ComputeStringBoundaryLimits F g aText aGlyphSize aGlyphThickness aTopLimit aBottomLimit =
     (case limits_loop F aTopLimit aBottomLimit aText
             \<lparr>result_x = 0, ymax = 0, ymin = 0\<rparr> of
        Inl e \<Rightarrow> Inl e
      | Inr st \<Rightarrow>
          (let result_y = vy (glyphSize g);
               rx = result_x st * vx aGlyphSize + aGlyphThickness;
               rx' = (if fontItalic g then rx + result_y * ITALIC_TILT else rx)
           in Inr \<lparr>result = VECTOR2D rx' result_y,
                   topLimit = (if aTopLimit then Some (ymax st * vy aGlyphSize) else None),
                   bottomLimit =
                     (if aBottomLimit then Some (ymin st * vy aGlyphSize) else None)\<rparr>))"

definition computeTextLineSize :: "STROKE_FONT \<Rightarrow> GAL \<Rightarrow> UTF8 \<Rightarrow> error + VECTOR2D" where
  "computeTextLineSize F g aText =
     (case ComputeStringBoundaryLimits F g aText (glyphSize g) (lineWidth g) False False of
        Inl e \<Rightarrow> Inl e
      | Inr r \<Rightarrow> Inr (result r))"

subsection \<open>Drawing a line\<close>

text \<open>
  The locals of \<open>drawSingleLineText\<close> that change in its loop, with the GAL it draws on.
\<close>

record draw_locals =
  overbar :: bool
  last_had_overbar :: bool
  xOffset :: real
  gal :: GAL

text \<open>A point of a glyph, scaled, moved to the pen position and sheared for italics.\<close>

definition glyph_point :: "GAL \<Rightarrow> VECTOR2D \<Rightarrow> real \<Rightarrow> VECTOR2D \<Rightarrow> VECTOR2D" where
  "glyph_point g gs xOff p =
     (let px = vx p * vx gs + xOff;
          py = vy p * vy gs
      in if fontItalic g then
           (if textMirrored g then VECTOR2D (px + py * ITALIC_TILT) py
            else VECTOR2D (px - py * ITALIC_TILT) py)
         else VECTOR2D px py)"

text \<open>
  The body of the loop after the test for a tilde, for the code point \<open>ch\<close>. \<open>gs\<close> is the
  local \<open>glyphSize\<close> and \<open>icomp\<close> the local \<open>overbar_italic_comp\<close>.
\<close>

definition draw_char ::
  "STROKE_FONT \<Rightarrow> VECTOR2D \<Rightarrow> real \<Rightarrow> nat \<Rightarrow> draw_locals \<Rightarrow> error + draw_locals" where
  "draw_char F gs icomp ch st =
     (let dd = glyph_index F ch
      in case elem_at (m_glyphs F) dd of
           Inl e \<Rightarrow> Inl e
         | Inr gl \<Rightarrow>
        (case elem_at (m_glyphBoundingBoxes F) dd of
           Inl e \<Rightarrow> Inl e
         | Inr bbox \<Rightarrow>
             (let st1 =
                    (if overbar st then
                       (let overbar_start_x = xOffset st;
                            overbar_start_y = - computeOverbarVerticalPosition (gal st);
                            overbar_end_x = xOffset st + vx gs * vx (GetEnd bbox);
                            overbar_end_y = overbar_start_y;
                            overbar_start_x' =
                              (if \<not> last_had_overbar st then overbar_start_x + icomp
                               else overbar_start_x)
                        in st\<lparr>last_had_overbar := True,
                               gal := DrawLine (VECTOR2D overbar_start_x' overbar_start_y)
                                        (VECTOR2D overbar_end_x overbar_end_y) (gal st)\<rparr>)
                     else st\<lparr>last_had_overbar := False\<rparr>);
                  st2 =
                    st1\<lparr>gal := fold (\<lambda>pl. DrawPolyline (map (glyph_point (gal st1) gs
                                     (xOffset st1)) pl)) gl (gal st1)\<rparr>
              in Inr (st2\<lparr>xOffset := xOffset st2 + vx gs * vx (GetEnd bbox)\<rparr>))))"

text \<open>
  The loop over the code points. A tilde moves on to the next code point and ends the loop
  when there is none; when the next code point is no tilde, the overbar is toggled.
\<close>

fun draw_loop ::
  "STROKE_FONT \<Rightarrow> VECTOR2D \<Rightarrow> real \<Rightarrow> UTF8 \<Rightarrow> draw_locals \<Rightarrow> error + draw_locals" where
  "draw_loop F gs icomp [] st = Inr st"
| "draw_loop F gs icomp (ch # rest) st =
     (if ch = tilde then
        (case rest of
           [] \<Rightarrow> Inr st
         | ch' # rest' \<Rightarrow>
             (case draw_char F gs icomp ch'
                     (if ch' \<noteq> tilde then st\<lparr>overbar := \<not> overbar st\<rparr> else st) of
                Inl e \<Rightarrow> Inl e
              | Inr st' \<Rightarrow> draw_loop F gs icomp rest' st'))
      else
        (case draw_char F gs icomp ch st of
           Inl e \<Rightarrow> Inl e
         | Inr st' \<Rightarrow> draw_loop F gs icomp rest st'))"

text \<open>The values of the locals when the loop is entered.\<close>

definition draw_glyphSize :: "GAL \<Rightarrow> VECTOR2D" where
  "draw_glyphSize g =
     (if textMirrored g then VECTOR2D (- vx (glyphSize g)) (vy (glyphSize g))
      else glyphSize g)"

definition draw_overbar_italic_comp :: "GAL \<Rightarrow> real" where
  "draw_overbar_italic_comp g =
     (if textMirrored g then - (computeOverbarVerticalPosition g * ITALIC_TILT)
      else computeOverbarVerticalPosition g * ITALIC_TILT)"

definition draw_xOffset :: "GAL \<Rightarrow> VECTOR2D \<Rightarrow> real" where
  "draw_xOffset g textSize = (if textMirrored g then vx textSize - lineWidth g else 0)"

text \<open>The translation for the horizontal justification.\<close>

definition justify_horizontal :: "VECTOR2D \<Rightarrow> GAL \<Rightarrow> GAL" where
  "justify_horizontal textSize g =
     (case horizontalJustify g of
        GR_TEXT_HJUSTIFY_CENTER \<Rightarrow> Translate (VECTOR2D (- vx textSize / 2) 0) g
      | GR_TEXT_HJUSTIFY_RIGHT \<Rightarrow>
          (if \<not> textMirrored g then Translate (VECTOR2D (- vx textSize) 0) g else g)
      | GR_TEXT_HJUSTIFY_LEFT \<Rightarrow>
          (if textMirrored g then Translate (VECTOR2D (- vx textSize) 0) g else g))"

text \<open>
  \<open>drawSingleLineText\<close> up to the end of its loop: the locals and the GAL at that point.
\<close>

definition drawSingleLineText_locals ::
  "STROKE_FONT \<Rightarrow> UTF8 \<Rightarrow> GAL \<Rightarrow> error + draw_locals" where
  "drawSingleLineText_locals F aText g =
     (case computeTextLineSize F g aText of
        Inl e \<Rightarrow> Inl e
      | Inr textSize \<Rightarrow>
          (let half_thickness = lineWidth g / 2;
               g1 = Translate (VECTOR2D half_thickness 0) g;
               g2 = Save g1;
               g3 = justify_horizontal textSize g2
           in draw_loop F (draw_glyphSize g) (draw_overbar_italic_comp g) aText
                \<lparr>overbar = False, last_had_overbar = False,
                 xOffset = draw_xOffset g3 textSize, gal = g3\<rparr>))"

definition drawSingleLineText :: "STROKE_FONT \<Rightarrow> UTF8 \<Rightarrow> GAL \<Rightarrow> error + GAL" where
  "drawSingleLineText F aText g =
     (case drawSingleLineText_locals F aText g of
        Inl e \<Rightarrow> Inl e
      | Inr st \<Rightarrow> Inr (Restore (gal st)))"

subsection \<open>Measuring and drawing a line in doubles\<close>

text \<open>
  \<open>ComputeStringBoundaryLimits\<close> and \<open>drawSingleLineText\<close> once more, line by line as above,
  with the result of every sum, difference, product and quotient rounded by \<open>rnd\<close>: the
  width of a line is the rounded sum of the widths of its glyphs, scaled once, and the pen
  moves by the rounded sum of the scaled widths, so the two differ by the roundings.
  Of the constants, \<open>ITALIC_TILT\<close> (0.125) is a \<open>double\<close> and \<open>OVERBAR_POSITION_FACTOR\<close>
  (1.22) is rounded to one. Negation and the comparisons of \<open>std::max\<close> and \<open>std::min\<close> are
  exact. \<open>GetEnd\<close> adds the size of a box to its origin.
\<close>

definition GetEnd_fl :: "(real \<Rightarrow> real) \<Rightarrow> BOX2D \<Rightarrow> VECTOR2D" where
  "GetEnd_fl rnd b =
     VECTOR2D (rnd (vx (m_Pos b) + vx (m_Size b))) (rnd (vy (m_Pos b) + vy (m_Size b)))"

definition limits_char_fl ::
  "(real \<Rightarrow> real) \<Rightarrow> STROKE_FONT \<Rightarrow> bool \<Rightarrow> bool \<Rightarrow> nat \<Rightarrow> limits_locals
     \<Rightarrow> error + limits_locals" where
  "limits_char_fl rnd F aTopLimit aBottomLimit ch st =
     (case elem_at (m_glyphBoundingBoxes F) (glyph_index F ch) of
        Inl e \<Rightarrow> Inl e
      | Inr box \<Rightarrow>
          Inr (st\<lparr>result_x := rnd (result_x st + vx (GetEnd_fl rnd box)),
                  ymax := (if aTopLimit
                           then max (max (ymax st) (GetY box)) (vy (GetEnd_fl rnd box))
                           else ymax st),
                  ymin := (if aBottomLimit
                           then min (min (ymin st) (GetY box)) (vy (GetEnd_fl rnd box))
                           else ymin st)\<rparr>))"

fun limits_loop_fl ::
  "(real \<Rightarrow> real) \<Rightarrow> STROKE_FONT \<Rightarrow> bool \<Rightarrow> bool \<Rightarrow> UTF8 \<Rightarrow> limits_locals
     \<Rightarrow> error + limits_locals" where
  "limits_loop_fl rnd F aTopLimit aBottomLimit [] st = Inr st"
| "limits_loop_fl rnd F aTopLimit aBottomLimit (ch # rest) st =
     (if ch = tilde then
        (case rest of
           [] \<Rightarrow> Inr st
         | ch' # rest' \<Rightarrow>
             (case limits_char_fl rnd F aTopLimit aBottomLimit ch' st of
                Inl e \<Rightarrow> Inl e
              | Inr st' \<Rightarrow> limits_loop_fl rnd F aTopLimit aBottomLimit rest' st'))
      else
        (case limits_char_fl rnd F aTopLimit aBottomLimit ch st of
           Inl e \<Rightarrow> Inl e
         | Inr st' \<Rightarrow> limits_loop_fl rnd F aTopLimit aBottomLimit rest st'))"

definition ComputeStringBoundaryLimits_fl ::
  "(real \<Rightarrow> real) \<Rightarrow> STROKE_FONT \<Rightarrow> GAL \<Rightarrow> UTF8 \<Rightarrow> VECTOR2D \<Rightarrow> real \<Rightarrow> bool \<Rightarrow> bool
     \<Rightarrow> error + string_limits" where
  "ComputeStringBoundaryLimits_fl rnd F g aText aGlyphSize aGlyphThickness aTopLimit
       aBottomLimit =
     (case limits_loop_fl rnd F aTopLimit aBottomLimit aText
             \<lparr>result_x = 0, ymax = 0, ymin = 0\<rparr> of
        Inl e \<Rightarrow> Inl e
      | Inr st \<Rightarrow>
          (let result_y = vy (glyphSize g);
               rx = rnd (rnd (result_x st * vx aGlyphSize) + aGlyphThickness);
               rx' = (if fontItalic g then rnd (rx + rnd (result_y * ITALIC_TILT)) else rx)
           in Inr \<lparr>result = VECTOR2D rx' result_y,
                   topLimit =
                     (if aTopLimit then Some (rnd (ymax st * vy aGlyphSize)) else None),
                   bottomLimit =
                     (if aBottomLimit then Some (rnd (ymin st * vy aGlyphSize)) else None)\<rparr>))"

definition computeTextLineSize_fl ::
  "(real \<Rightarrow> real) \<Rightarrow> STROKE_FONT \<Rightarrow> GAL \<Rightarrow> UTF8 \<Rightarrow> error + VECTOR2D" where
  "computeTextLineSize_fl rnd F g aText =
     (case ComputeStringBoundaryLimits_fl rnd F g aText (glyphSize g) (lineWidth g)
             False False of
        Inl e \<Rightarrow> Inl e
      | Inr r \<Rightarrow> Inr (result r))"

definition ComputeOverbarVerticalPosition_fl :: "(real \<Rightarrow> real) \<Rightarrow> real \<Rightarrow> real \<Rightarrow> real" where
  "ComputeOverbarVerticalPosition_fl rnd aGlyphHeight aGlyphThickness =
     rnd (rnd (aGlyphHeight * rnd OVERBAR_POSITION_FACTOR) + aGlyphThickness)"

definition computeOverbarVerticalPosition_fl :: "(real \<Rightarrow> real) \<Rightarrow> GAL \<Rightarrow> real" where
  "computeOverbarVerticalPosition_fl rnd g =
     ComputeOverbarVerticalPosition_fl rnd (vy (glyphSize g)) (lineWidth g)"

definition glyph_point_fl ::
  "(real \<Rightarrow> real) \<Rightarrow> GAL \<Rightarrow> VECTOR2D \<Rightarrow> real \<Rightarrow> VECTOR2D \<Rightarrow> VECTOR2D" where
  "glyph_point_fl rnd g gs xOff p =
     (let px = rnd (rnd (vx p * vx gs) + xOff);
          py = rnd (vy p * vy gs)
      in if fontItalic g then
           (if textMirrored g then VECTOR2D (rnd (px + rnd (py * ITALIC_TILT))) py
            else VECTOR2D (rnd (px - rnd (py * ITALIC_TILT))) py)
         else VECTOR2D px py)"

definition draw_char_fl ::
  "(real \<Rightarrow> real) \<Rightarrow> STROKE_FONT \<Rightarrow> VECTOR2D \<Rightarrow> real \<Rightarrow> nat \<Rightarrow> draw_locals
     \<Rightarrow> error + draw_locals" where
  "draw_char_fl rnd F gs icomp ch st =
     (let dd = glyph_index F ch
      in case elem_at (m_glyphs F) dd of
           Inl e \<Rightarrow> Inl e
         | Inr gl \<Rightarrow>
        (case elem_at (m_glyphBoundingBoxes F) dd of
           Inl e \<Rightarrow> Inl e
         | Inr bbox \<Rightarrow>
             (let st1 =
                    (if overbar st then
                       (let overbar_start_x = xOffset st;
                            overbar_start_y = - computeOverbarVerticalPosition_fl rnd (gal st);
                            overbar_end_x =
                              rnd (xOffset st + rnd (vx gs * vx (GetEnd_fl rnd bbox)));
                            overbar_end_y = overbar_start_y;
                            overbar_start_x' =
                              (if \<not> last_had_overbar st then rnd (overbar_start_x + icomp)
                               else overbar_start_x)
                        in st\<lparr>last_had_overbar := True,
                               gal := DrawLine (VECTOR2D overbar_start_x' overbar_start_y)
                                        (VECTOR2D overbar_end_x overbar_end_y) (gal st)\<rparr>)
                     else st\<lparr>last_had_overbar := False\<rparr>);
                  st2 =
                    st1\<lparr>gal := fold (\<lambda>pl. DrawPolyline (map (glyph_point_fl rnd (gal st1) gs
                                     (xOffset st1)) pl)) gl (gal st1)\<rparr>
              in Inr (st2\<lparr>xOffset :=
                            rnd (xOffset st2 + rnd (vx gs * vx (GetEnd_fl rnd bbox)))\<rparr>))))"

fun draw_loop_fl ::
  "(real \<Rightarrow> real) \<Rightarrow> STROKE_FONT \<Rightarrow> VECTOR2D \<Rightarrow> real \<Rightarrow> UTF8 \<Rightarrow> draw_locals
     \<Rightarrow> error + draw_locals" where
  "draw_loop_fl rnd F gs icomp [] st = Inr st"
| "draw_loop_fl rnd F gs icomp (ch # rest) st =
     (if ch = tilde then
        (case rest of
           [] \<Rightarrow> Inr st
         | ch' # rest' \<Rightarrow>
             (case draw_char_fl rnd F gs icomp ch'
                     (if ch' \<noteq> tilde then st\<lparr>overbar := \<not> overbar st\<rparr> else st) of
                Inl e \<Rightarrow> Inl e
              | Inr st' \<Rightarrow> draw_loop_fl rnd F gs icomp rest' st'))
      else
        (case draw_char_fl rnd F gs icomp ch st of
           Inl e \<Rightarrow> Inl e
         | Inr st' \<Rightarrow> draw_loop_fl rnd F gs icomp rest st'))"

definition draw_overbar_italic_comp_fl :: "(real \<Rightarrow> real) \<Rightarrow> GAL \<Rightarrow> real" where
  "draw_overbar_italic_comp_fl rnd g =
     (if textMirrored g then - rnd (computeOverbarVerticalPosition_fl rnd g * ITALIC_TILT)
      else rnd (computeOverbarVerticalPosition_fl rnd g * ITALIC_TILT))"

definition draw_xOffset_fl :: "(real \<Rightarrow> real) \<Rightarrow> GAL \<Rightarrow> VECTOR2D \<Rightarrow> real" where
  "draw_xOffset_fl rnd g textSize =
     (if textMirrored g then rnd (vx textSize - lineWidth g) else 0)"

definition justify_horizontal_fl :: "(real \<Rightarrow> real) \<Rightarrow> VECTOR2D \<Rightarrow> GAL \<Rightarrow> GAL" where
  "justify_horizontal_fl rnd textSize g =
     (case horizontalJustify g of
        GR_TEXT_HJUSTIFY_CENTER \<Rightarrow> Translate (VECTOR2D (rnd (- vx textSize / 2)) 0) g
      | GR_TEXT_HJUSTIFY_RIGHT \<Rightarrow>
          (if \<not> textMirrored g then Translate (VECTOR2D (- vx textSize) 0) g else g)
      | GR_TEXT_HJUSTIFY_LEFT \<Rightarrow>
          (if textMirrored g then Translate (VECTOR2D (- vx textSize) 0) g else g))"

definition drawSingleLineText_locals_fl ::
  "(real \<Rightarrow> real) \<Rightarrow> STROKE_FONT \<Rightarrow> UTF8 \<Rightarrow> GAL \<Rightarrow> error + draw_locals" where
  "drawSingleLineText_locals_fl rnd F aText g =
     (case computeTextLineSize_fl rnd F g aText of
        Inl e \<Rightarrow> Inl e
      | Inr textSize \<Rightarrow>
          (let half_thickness = rnd (lineWidth g / 2);
               g1 = Translate (VECTOR2D half_thickness 0) g;
               g2 = Save g1;
               g3 = justify_horizontal_fl rnd textSize g2
           in draw_loop_fl rnd F (draw_glyphSize g) (draw_overbar_italic_comp_fl rnd g) aText
                \<lparr>overbar = False, last_had_overbar = False,
                 xOffset = draw_xOffset_fl rnd g3 textSize, gal = g3\<rparr>))"

definition drawSingleLineText_fl ::
  "(real \<Rightarrow> real) \<Rightarrow> STROKE_FONT \<Rightarrow> UTF8 \<Rightarrow> GAL \<Rightarrow> error + GAL" where
  "drawSingleLineText_fl rnd F aText g =
     (case drawSingleLineText_locals_fl rnd F aText g of
        Inl e \<Rightarrow> Inl e
      | Inr st \<Rightarrow> Inr (Restore (gal st)))"

subsection \<open>Drawing a text of several lines\<close>

text \<open>
  Integer division in C++ truncates towards zero.
\<close>

definition int_div :: "int \<Rightarrow> int \<Rightarrow> int" where
  "int_div a b = sgn a * sgn b * (\<bar>a\<bar> div \<bar>b\<bar>)"

definition line_feed :: nat where
  "line_feed = 10"

text \<open>
  The loop of \<open>Draw\<close> over the line feeds of the text, with the last line drawn after it.
  The text given is the part from \<open>begin\<close> on. (The source searches the bytes of the text;
  in UTF-8 the byte 10 occurs only as the code point 10.)
\<close>

function draw_lines :: "STROKE_FONT \<Rightarrow> int \<Rightarrow> UTF8 \<Rightarrow> GAL \<Rightarrow> error + GAL" where
  "draw_lines F lineHeight aText g =
     (if line_feed \<in> set aText then
        (case drawSingleLineText F (takeWhile (\<lambda>c. c \<noteq> line_feed) aText) g of
           Inl e \<Rightarrow> Inl e
         | Inr g' \<Rightarrow>
             draw_lines F lineHeight (tl (dropWhile (\<lambda>c. c \<noteq> line_feed) aText))
               (Translate (VECTOR2D 0 (real_of_int lineHeight)) g'))
      else drawSingleLineText F aText g)"
  by pat_completeness auto
termination
proof (relation "measure (\<lambda>(F, h, t, g). length t)")
  show "wf (measure (\<lambda>(F, h, t, g). length t))" by simp
next
  fix F :: STROKE_FONT and lineHeight :: int and aText :: UTF8 and g x2 :: GAL
  assume "line_feed \<in> set aText"
  then have "dropWhile (\<lambda>c. c \<noteq> line_feed) aText \<noteq> []"
    by simp
  then have "length (tl (dropWhile (\<lambda>c. c \<noteq> line_feed) aText))
               < length (dropWhile (\<lambda>c. c \<noteq> line_feed) aText)"
    by (cases "dropWhile (\<lambda>c. c \<noteq> line_feed) aText") simp_all
  also have "\<dots> \<le> length aText"
    by (rule length_dropWhile_le)
  finally show "((F, lineHeight, tl (dropWhile (\<lambda>c. c \<noteq> line_feed) aText),
                  Translate (VECTOR2D 0 (real_of_int lineHeight)) x2),
                 (F, lineHeight, aText, g)) \<in> measure (\<lambda>(F, h, t, g). length t)"
    by simp
qed

declare draw_lines.simps [simp del]

text \<open>
  \<open>Draw\<close>. \<open>linesCount\<close> is a member declared in gal/stroke\_font.h and a parameter here, as
  \<open>KiROUND\<close> is. The offset of the first of several lines is computed with \<open>int\<close>s, the
  negation first, then the product, then the division.
\<close>

definition justify_vertical_first :: "GAL \<Rightarrow> GAL" where
  "justify_vertical_first g =
     (case verticalJustify g of
        GR_TEXT_VJUSTIFY_TOP \<Rightarrow> Translate (VECTOR2D 0 (vy (glyphSize g))) g
      | GR_TEXT_VJUSTIFY_CENTER \<Rightarrow> Translate (VECTOR2D 0 (vy (glyphSize g) / 2)) g
      | GR_TEXT_VJUSTIFY_BOTTOM \<Rightarrow> g)"

definition justify_vertical_lines :: "int \<Rightarrow> int \<Rightarrow> GAL \<Rightarrow> GAL" where
  "justify_vertical_lines lineCount lineHeight g =
     (if lineCount > 1 then
        (case verticalJustify g of
           GR_TEXT_VJUSTIFY_TOP \<Rightarrow> g
         | GR_TEXT_VJUSTIFY_CENTER \<Rightarrow>
             Translate (VECTOR2D 0
               (real_of_int
                  (int_div (wrap32 (wrap32 (- wrap32 (lineCount - 1)) * lineHeight)) 2))) g
         | GR_TEXT_VJUSTIFY_BOTTOM \<Rightarrow>
             Translate (VECTOR2D 0
               (real_of_int (wrap32 (wrap32 (- wrap32 (lineCount - 1)) * lineHeight)))) g)
      else g)"

definition Draw ::
  "(real \<Rightarrow> real) \<Rightarrow> (real \<Rightarrow> int) \<Rightarrow> (UTF8 \<Rightarrow> int) \<Rightarrow> STROKE_FONT \<Rightarrow> UTF8 \<Rightarrow> VECTOR2D \<Rightarrow> real
     \<Rightarrow> GAL \<Rightarrow> error + GAL" where
  "Draw rnd KiROUND linesCount F aText aPosition aRotationAngle g =
     (if aText = [] then Inr g
      else
        (let g1 = Save g;
             g2 = Translate aPosition g1;
             g3 = Rotate (- aRotationAngle) g2;
             lineHeight = getInterline rnd KiROUND g3;
             lineCount = linesCount aText;
             g4 = justify_vertical_first g3;
             g5 = justify_vertical_lines lineCount lineHeight g4;
             g6 = SetIsStroke True g5;
             g7 = (if fontBold g6 then SetLineWidth (lineWidth g6 * BOLD_FACTOR) g6 else g6)
         in case draw_lines F lineHeight aText g7 of
              Inl e \<Rightarrow> Inl e
            | Inr g8 \<Rightarrow> Inr (Restore g8)))"

section \<open>The painter's dispatch (pcbnew/pcb\_painter.cpp)\<close>

text \<open>
  \<open>KICAD_T\<close> is the run-time type tag of a board item. The enumeration is declared outside
  the sources at hand; the values that \<open>PCB_PAINTER::Draw\<close> names are constructors here,
  and \<open>OTHER_T n\<close> stands for any of the remaining values (modules, markers, schematic
  items and so on).
\<close>

datatype KICAD_T =
    PCB_ZONE_T | PCB_TRACE_T | PCB_VIA_T | PCB_PAD_T | PCB_LINE_T | PCB_MODULE_EDGE_T
  | PCB_TEXT_T | PCB_MODULE_TEXT_T | PCB_ZONE_AREA_T | PCB_DIMENSION_T | PCB_TARGET_T
  | OTHER_T nat

record 'a EDA_ITEM =
  Type :: KICAD_T
  data :: 'a

text \<open>
  The private overloads \<open>draw(const TRACK*)\<close>, \<open>draw(const SEGVIA*, int)\<close>, ... read board
  classes that are declared elsewhere and issue calls on the GAL. The dispatch does not look
  into them, so each is a transformer of the GAL state here, collected in one record.
\<close>

record ('a, 'g) painter_overloads =
  draw_TRACK :: "'a \<Rightarrow> 'g \<Rightarrow> 'g"
  draw_SEGVIA :: "'a \<Rightarrow> int \<Rightarrow> 'g \<Rightarrow> 'g"
  draw_D_PAD :: "'a \<Rightarrow> int \<Rightarrow> 'g \<Rightarrow> 'g"
  draw_DRAWSEGMENT :: "'a \<Rightarrow> 'g \<Rightarrow> 'g"
  draw_TEXTE_PCB :: "'a \<Rightarrow> 'g \<Rightarrow> 'g"
  draw_TEXTE_MODULE :: "'a \<Rightarrow> int \<Rightarrow> 'g \<Rightarrow> 'g"
  draw_ZONE_CONTAINER :: "'a \<Rightarrow> 'g \<Rightarrow> 'g"
  draw_DIMENSION :: "'a \<Rightarrow> 'g \<Rightarrow> 'g"
  draw_PCB_TARGET :: "'a \<Rightarrow> 'g \<Rightarrow> 'g"

definition PCB_PAINTER_Draw ::
  "('a, 'g) painter_overloads \<Rightarrow> 'a EDA_ITEM \<Rightarrow> int \<Rightarrow> 'g \<Rightarrow> bool \<times> 'g" where
  "PCB_PAINTER_Draw p aItem aLayer g =
     (case Type aItem of
        PCB_ZONE_T \<Rightarrow> (True, draw_TRACK p (data aItem) g)
      | PCB_TRACE_T \<Rightarrow> (True, draw_TRACK p (data aItem) g)
      | PCB_VIA_T \<Rightarrow> (True, draw_SEGVIA p (data aItem) aLayer g)
      | PCB_PAD_T \<Rightarrow> (True, draw_D_PAD p (data aItem) aLayer g)
      | PCB_LINE_T \<Rightarrow> (True, draw_DRAWSEGMENT p (data aItem) g)
      | PCB_MODULE_EDGE_T \<Rightarrow> (True, draw_DRAWSEGMENT p (data aItem) g)
      | PCB_TEXT_T \<Rightarrow> (True, draw_TEXTE_PCB p (data aItem) g)
      | PCB_MODULE_TEXT_T \<Rightarrow> (True, draw_TEXTE_MODULE p (data aItem) aLayer g)
      | PCB_ZONE_AREA_T \<Rightarrow> (True, draw_ZONE_CONTAINER p (data aItem) g)
      | PCB_DIMENSION_T \<Rightarrow> (True, draw_DIMENSION p (data aItem) g)
      | PCB_TARGET_T \<Rightarrow> (True, draw_PCB_TARGET p (data aItem) g)
      | OTHER_T n \<Rightarrow> (False, g))"

definition handled_types :: "KICAD_T set" where
  "handled_types =
     {PCB_ZONE_T, PCB_TRACE_T, PCB_VIA_T, PCB_PAD_T, PCB_LINE_T, PCB_MODULE_EDGE_T,
      PCB_TEXT_T, PCB_MODULE_TEXT_T, PCB_ZONE_AREA_T, PCB_DIMENSION_T, PCB_TARGET_T}"

text \<open>A painter for trying the dispatch: each overload counts one call.\<close>

definition counting_painter :: "(unit, nat) painter_overloads" where
  "counting_painter =
     \<lparr>draw_TRACK = (\<lambda>_. Suc), draw_SEGVIA = (\<lambda>_ _. Suc), draw_D_PAD = (\<lambda>_ _. Suc),
      draw_DRAWSEGMENT = (\<lambda>_. Suc), draw_TEXTE_PCB = (\<lambda>_. Suc),
      draw_TEXTE_MODULE = (\<lambda>_ _. Suc), draw_ZONE_CONTAINER = (\<lambda>_. Suc),
      draw_DIMENSION = (\<lambda>_. Suc), draw_PCB_TARGET = (\<lambda>_. Suc)\<rparr>"

section \<open>Well-formed inputs and observations\<close>

text \<open>
  A glyph string in the format of the table: pairs of characters, the first pair present,
  and no 0 before the terminator.
\<close>

definition glyph_string :: "cstring \<Rightarrow> bool" where
  "glyph_string s = (even (length s) \<and> 2 \<le> length s \<and> 0 \<notin> set s)"

text \<open>
  The simulation between the locals of the decoding loop and the accumulator of
  \<open>spec_pair\<close>: the strokes stored are the non-empty strokes ended so far.
\<close>

definition sim :: "glyph_locals \<Rightarrow> VECTOR2D list list \<times> VECTOR2D list \<Rightarrow> bool" where
  "sim st acc =
     (glyph st = filter (\<lambda>stroke. stroke \<noteq> []) (fst acc) \<and> pointList st = snd acc)"

text \<open>
  A font in which the index of the question mark is valid for both tables, as it is after a
  table of at least 32 glyphs has been loaded.
\<close>

definition font_loaded :: "STROKE_FONT \<Rightarrow> bool" where
  "font_loaded F =
     (length (m_glyphs F) = length (m_glyphBoundingBoxes F) \<and>
      ord CHR ''?'' - ord CHR '' '' < int (length (m_glyphBoundingBoxes F)))"

subsection \<open>Observing the calls on the GAL\<close>

text \<open>The calls that a run has added to the GAL, and those of them that draw.\<close>

definition new_calls :: "GAL \<Rightarrow> GAL \<Rightarrow> gal_call list" where
  "new_calls g g' = drop (length (calls g)) (calls g')"

fun is_primitive :: "gal_call \<Rightarrow> bool" where
  "is_primitive (DrawLineCall a b) = True"
| "is_primitive (DrawPolylineCall ps) = True"
| "is_primitive c = False"

definition primitives :: "gal_call list \<Rightarrow> gal_call list" where
  "primitives cs = filter is_primitive cs"

text \<open>The calls that the loop body issues for one glyph.\<close>

definition char_calls ::
  "GAL \<Rightarrow> VECTOR2D \<Rightarrow> real \<Rightarrow> bool \<Rightarrow> bool \<Rightarrow> real \<Rightarrow> GLYPH \<Rightarrow> BOX2D \<Rightarrow> gal_call list" where
  "char_calls g gs icomp ov lho xo gl bbox =
     (if ov then
        [DrawLineCall
           (VECTOR2D (if \<not> lho then xo + icomp else xo) (- computeOverbarVerticalPosition g))
           (VECTOR2D (xo + vx gs * vx (GetEnd bbox)) (- computeOverbarVerticalPosition g))]
      else []) @
     map (\<lambda>pl. DrawPolylineCall (map (glyph_point g gs xo) pl)) gl"

text \<open>
  The strokes of the glyph for a code point as they are drawn with the pen at \<open>xo\<close>, the
  advance of the pen over it, and the segment of the overbar above it.
\<close>

definition glyph_strokes :: "STROKE_FONT \<Rightarrow> GAL \<Rightarrow> nat \<Rightarrow> real \<Rightarrow> gal_call list" where
  "glyph_strokes F g ch xo =
     map (\<lambda>pl. DrawPolylineCall (map (glyph_point g (draw_glyphSize g) xo) pl))
       (m_glyphs F ! nat (glyph_index F ch))"

definition advance :: "STROKE_FONT \<Rightarrow> GAL \<Rightarrow> nat \<Rightarrow> real" where
  "advance F g ch =
     vx (draw_glyphSize g) * vx (GetEnd (m_glyphBoundingBoxes F ! nat (glyph_index F ch)))"

definition overbar_segment :: "STROKE_FONT \<Rightarrow> GAL \<Rightarrow> nat \<Rightarrow> real \<Rightarrow> bool \<Rightarrow> gal_call" where
  "overbar_segment F g ch xo first =
     DrawLineCall
       (VECTOR2D (if first then xo + draw_overbar_italic_comp g else xo)
          (- computeOverbarVerticalPosition g))
       (VECTOR2D (xo + advance F g ch) (- computeOverbarVerticalPosition g))"

text \<open>Reflection of a point, and of the points of a drawing call, in the axis \<open>x = a / 2\<close>.\<close>

definition reflect_x :: "real \<Rightarrow> VECTOR2D \<Rightarrow> VECTOR2D" where
  "reflect_x a p = VECTOR2D (a - vx p) (vy p)"

fun reflect_call :: "real \<Rightarrow> gal_call \<Rightarrow> gal_call" where
  "reflect_call a (DrawLineCall p q) = DrawLineCall (reflect_x a p) (reflect_x a q)"
| "reflect_call a (DrawPolylineCall ps) = DrawPolylineCall (map (reflect_x a) ps)"
| "reflect_call a c = c"

text \<open>
  Two states of the loop of \<open>drawSingleLineText\<close>, one of an unmirrored and one of a mirrored
  run, that mirror each other in the axis \<open>x = a / 2\<close>: the pens are reflections of one
  another, and so are the primitives drawn since the calls \<open>pu\<close> and \<open>pm\<close>.
\<close>

definition mirror_rel ::
  "real \<Rightarrow> gal_call list \<Rightarrow> gal_call list \<Rightarrow> draw_locals \<Rightarrow> draw_locals \<Rightarrow> bool" where
  "mirror_rel a pu pm su sm =
     (overbar sm = overbar su \<and> last_had_overbar sm = last_had_overbar su \<and>
      xOffset sm = a - xOffset su \<and>
      glyphSize (gal sm) = glyphSize (gal su) \<and> lineWidth (gal sm) = lineWidth (gal su) \<and>
      fontItalic (gal sm) = fontItalic (gal su) \<and>
      \<not> textMirrored (gal su) \<and> textMirrored (gal sm) \<and>
      (\<exists>cu cm. calls (gal su) = pu @ cu \<and> calls (gal sm) = pm @ cm \<and>
         primitives cm = map (reflect_call a) (primitives cu)))"

text \<open>
  The translation in effect at each drawing call of a sequence of calls: \<open>Translate\<close> adds to
  it, \<open>Save\<close> and \<open>Restore\<close> push and pop it. It tells where a primitive is placed within
  one rotated frame.
\<close>

fun primitive_origins :: "VECTOR2D \<Rightarrow> VECTOR2D list \<Rightarrow> gal_call list \<Rightarrow> VECTOR2D list" where
  "primitive_origins cur stack [] = []"
| "primitive_origins cur stack (TranslateCall v # cs) =
     primitive_origins (VECTOR2D (vx cur + vx v) (vy cur + vy v)) stack cs"
| "primitive_origins cur stack (SaveCall # cs) = primitive_origins cur (cur # stack) cs"
| "primitive_origins cur stack (RestoreCall # cs) =
     (case stack of
        [] \<Rightarrow> primitive_origins cur [] cs
      | saved # deeper \<Rightarrow> primitive_origins saved deeper cs)"
| "primitive_origins cur stack (DrawLineCall a b # cs) = cur # primitive_origins cur stack cs"
| "primitive_origins cur stack (DrawPolylineCall ps # cs) =
     cur # primitive_origins cur stack cs"
| "primitive_origins cur stack (c # cs) = primitive_origins cur stack cs"

subsection \<open>What a text draws in a loaded font\<close>

text \<open>The bounding box that is looked up for a code point.\<close>

definition glyph_box :: "STROKE_FONT \<Rightarrow> nat \<Rightarrow> BOX2D" where
  "glyph_box F ch = m_glyphBoundingBoxes F ! nat (glyph_index F ch)"

text \<open>
  The glyphs that the loops go through for a text, each with the state of the overbar it is
  drawn in: what the tildes of the text amount to. \<open>ov\<close> is the state before the text.
\<close>

fun line_glyphs :: "UTF8 \<Rightarrow> bool \<Rightarrow> (bool \<times> nat) list" where
  "line_glyphs [] ov = []"
| "line_glyphs (ch # rest) ov =
     (if ch = tilde then
        (case rest of
           [] \<Rightarrow> []
         | ch' # rest' \<Rightarrow>
             (if ch' \<noteq> tilde then (\<not> ov, ch') # line_glyphs rest' (\<not> ov)
              else (ov, ch') # line_glyphs rest' ov))
      else (ov, ch) # line_glyphs rest ov)"

text \<open>The calls for a sequence of such glyphs, drawn side by side from the pen position \<open>xo\<close>.
\<close>

fun glyph_calls ::
  "STROKE_FONT \<Rightarrow> GAL \<Rightarrow> VECTOR2D \<Rightarrow> real \<Rightarrow> (bool \<times> nat) list \<Rightarrow> bool \<Rightarrow> real
     \<Rightarrow> gal_call list" where
  "glyph_calls F g gs icomp [] lho xo = []"
| "glyph_calls F g gs icomp (p # ps) lho xo =
     char_calls g gs icomp (fst p) lho xo (m_glyphs F ! nat (glyph_index F (snd p)))
       (glyph_box F (snd p)) @
     glyph_calls F g gs icomp ps (fst p) (xo + vx gs * vx (GetEnd (glyph_box F (snd p))))"

text \<open>The size of a line of text in a loaded font, as \<open>computeTextLineSize\<close> returns it.\<close>

definition line_size :: "STROKE_FONT \<Rightarrow> GAL \<Rightarrow> UTF8 \<Rightarrow> VECTOR2D" where
  "line_size F g aText =
     VECTOR2D
       ((\<Sum>p\<leftarrow>line_glyphs aText False. vx (GetEnd (glyph_box F (snd p)))) * vx (glyphSize g) +
        lineWidth g + (if fontItalic g then vy (glyphSize g) * ITALIC_TILT else 0))
       (vy (glyphSize g))"

text \<open>The calls of the horizontal justification.\<close>

definition justify_calls :: "GAL \<Rightarrow> VECTOR2D \<Rightarrow> gal_call list" where
  "justify_calls g textSize = calls (justify_horizontal textSize (g\<lparr>calls := []\<rparr>))"

text \<open>The calls of \<open>drawSingleLineText\<close> for a line of text in a loaded font.\<close>

definition line_calls :: "STROKE_FONT \<Rightarrow> GAL \<Rightarrow> UTF8 \<Rightarrow> gal_call list" where
  "line_calls F g aText =
     [TranslateCall (VECTOR2D (lineWidth g / 2) 0), SaveCall] @
     justify_calls g (line_size F g aText) @
     glyph_calls F g (draw_glyphSize g) (draw_overbar_italic_comp g) (line_glyphs aText False)
       False (draw_xOffset g (line_size F g aText)) @
     [RestoreCall]"

text \<open>
  The GAL as \<open>Draw\<close> has set it when it draws the lines: the stroke is on, and the lines
  are thickened for a bold font.
\<close>

definition drawing_gal :: "GAL \<Rightarrow> GAL" where
  "drawing_gal g =
     g\<lparr>isStrokeEnabled := True,
       lineWidth := (if fontBold g then lineWidth g * BOLD_FACTOR else lineWidth g)\<rparr>"

text \<open>The calls of \<open>Draw\<close> before it draws the first line.\<close>

definition draw_prefix ::
  "(real \<Rightarrow> real) \<Rightarrow> (real \<Rightarrow> int) \<Rightarrow> (UTF8 \<Rightarrow> int) \<Rightarrow> UTF8 \<Rightarrow> VECTOR2D \<Rightarrow> real \<Rightarrow> GAL
     \<Rightarrow> gal_call list" where
  "draw_prefix rnd KiROUND linesCount aText aPosition aRotationAngle g =
     [SaveCall, TranslateCall aPosition, RotateCall (- aRotationAngle)] @
     calls (justify_vertical_lines (linesCount aText) (getInterline rnd KiROUND g)
              (justify_vertical_first (g\<lparr>calls := []\<rparr>))) @
     [SetIsStrokeCall True] @
     (if fontBold g then [SetLineWidthCall (lineWidth g * BOLD_FACTOR)] else [])"

subsection \<open>Rounding\<close>

text \<open>
  A rounding with relative error \<open>u\<close> and absolute error \<open>\<eta>\<close> on the range up to \<open>\<Omega>\<close>.
  The rounding of a real number to the nearest \<open>double\<close> is one with \<open>u = 2^-53\<close>,
  \<open>\<eta> = 2^-1075\<close> and \<open>\<Omega>\<close> the largest \<open>double\<close>.
\<close>

definition rounds :: "(real \<Rightarrow> real) \<Rightarrow> real \<Rightarrow> real \<Rightarrow> real \<Rightarrow> bool" where
  "rounds rnd u \<eta> \<Omega> =
     (0 \<le> u \<and> 0 \<le> \<eta> \<and> (\<forall>x. \<bar>x\<bar> \<le> \<Omega> \<longrightarrow> \<bar>rnd x - x\<bar> \<le> u * \<bar>x\<bar> + \<eta>))"

text \<open>
  A bound on the error of a value that has gone through \<open>k\<close> roundings one after another,
  when the absolute values of the numbers it is the sum of add up to \<open>m\<close> and the absolute
  errors of the roundings are counted in \<open>a\<close>; a bound on the magnitude of such a value;
  and a value \<open>xh\<close> that stands for \<open>x\<close> within these bounds.
\<close>

definition rounding_bound :: "real \<Rightarrow> real \<Rightarrow> nat \<Rightarrow> real \<Rightarrow> real \<Rightarrow> real" where
  "rounding_bound u \<eta> k m a = ((1 + u) ^ k - 1) * m + (1 + u) ^ k * a * \<eta>"

definition magnitude_bound :: "real \<Rightarrow> real \<Rightarrow> nat \<Rightarrow> real \<Rightarrow> real \<Rightarrow> real" where
  "magnitude_bound u \<eta> k m a = (1 + u) ^ k * (m + a * \<eta>)"

definition approximates ::
  "real \<Rightarrow> real \<Rightarrow> nat \<Rightarrow> real \<Rightarrow> real \<Rightarrow> real \<Rightarrow> real \<Rightarrow> bool" where
  "approximates u \<eta> k m a xh x = (\<bar>x\<bar> \<le> m \<and> \<bar>xh - x\<bar> \<le> rounding_bound u \<eta> k m a)"

text \<open>
  The widths of the glyphs of a line, in units of the glyph size, as the two loops read them
  from the bounding boxes; the scale of the width of the line, which is the sum of the
  absolute values of what goes into the width and into the pen; and the count of the
  absolute errors.
\<close>

definition glyph_widths :: "(real \<Rightarrow> real) \<Rightarrow> STROKE_FONT \<Rightarrow> UTF8 \<Rightarrow> real list" where
  "glyph_widths rnd F aText =
     map (\<lambda>p. vx (GetEnd_fl rnd (glyph_box F (snd p)))) (line_glyphs aText False)"

definition line_scale :: "(real \<Rightarrow> real) \<Rightarrow> STROKE_FONT \<Rightarrow> GAL \<Rightarrow> UTF8 \<Rightarrow> real" where
  "line_scale rnd F g aText =
     2 * (\<bar>vx (glyphSize g)\<bar> * (\<Sum>w\<leftarrow>glyph_widths rnd F aText. \<bar>w\<bar>) + \<bar>lineWidth g\<bar>) +
     (if fontItalic g then \<bar>vy (glyphSize g)\<bar> * ITALIC_TILT else 0)"

definition line_roundings :: "GAL \<Rightarrow> UTF8 \<Rightarrow> real" where
  "line_roundings g aText =
     (\<bar>vx (glyphSize g)\<bar> + 2) * real (length (line_glyphs aText False)) + 5"

section \<open>The groups of the OpenGL backend (gal/opengl/opengl\_gal.h)\<close>

text \<open>Modelled from the spec: the bodies of \<open>OPENGL_GAL::BeginGroup\<close>, \<open>EndGroup\<close> and
  \<open>DeleteGroup\<close> belong to the implementation file of the OpenGL backend, of which only the
  header gal/opengl/opengl\_gal.h, with the members \<open>displayListsGroup\<close> and
  \<open>isGroupStarted\<close>, is at hand. The state of the groups is these two members; the
  resources that the backend holds for groups are the display lists in \<open>displayListsGroup\<close>.
\<close>

record group_state =
  displayListsGroup :: "nat list"
  isGroupStarted :: bool

definition group_resources :: "group_state \<Rightarrow> nat" where
  "group_resources s = length (displayListsGroup s)"

text \<open>Modelled from the spec: the body of \<open>BeginGroup\<close> is missing. "\<open>BeginGroup()\<close> returns a
  fresh handle and starts recording": the handle is a number that no group in use has.
\<close>

definition BeginGroup :: "group_state \<Rightarrow> int \<times> group_state" where
  "BeginGroup s =
     (let handle = Suc (fold max (displayListsGroup s) 0)
      in (int handle,
          s\<lparr>displayListsGroup := displayListsGroup s @ [handle], isGroupStarted := True\<rparr>))"

text \<open>Modelled from the spec: the body of \<open>EndGroup\<close> is missing. It ends the recording that
  \<open>BeginGroup\<close> started.
\<close>

definition EndGroup :: "group_state \<Rightarrow> group_state" where
  "EndGroup s = s\<lparr>isGroupStarted := False\<rparr>"

text \<open>Modelled from the spec: the body of \<open>DeleteGroup\<close> is missing. "\<open>DeleteGroup(handle)\<close>
  releases backend resources; double-deletion must be a no-op, not an error": the display
  list of a handle in use is released, and any other handle leaves the state as it is.
\<close>

definition DeleteGroup :: "int \<Rightarrow> group_state \<Rightarrow> error + group_state" where
  "DeleteGroup aGroupNumber s =
     (if 0 \<le> aGroupNumber \<and> nat aGroupNumber \<in> set (displayListsGroup s)
      then Inr (s\<lparr>displayListsGroup := removeAll (nat aGroupNumber) (displayListsGroup s)\<rparr>)
      else Inr s)"

section \<open>Examples\<close>

text \<open>A C string and a text from a string literal, a box around points, a table.\<close>

definition cstr :: "string \<Rightarrow> cstring" where
  "cstr s = map ord s"

definition utf8 :: "string \<Rightarrow> UTF8" where
  "utf8 s = map of_char s"

definition example_Compute :: "VECTOR2D list \<Rightarrow> BOX2D" where
  "example_Compute ps =
     (case ps of
        [] \<Rightarrow> BOX2D (VECTOR2D 0 0) (VECTOR2D 0 0)
      | p # _ \<Rightarrow>
          (let xmin = fold min (map vx ps) (vx p); xmax = fold max (map vx ps) (vx p);
               ymin' = fold min (map vy ps) (vy p); ymax' = fold max (map vy ps) (vy p)
           in BOX2D (VECTOR2D xmin ymin') (VECTOR2D (xmax - xmin) (ymax' - ymin'))))"

definition example_table :: "cstring list" where
  "example_table = [cstr ''JZ'', cstr ''KYQUS] RLW'']"

definition empty_font :: STROKE_FONT where
  "empty_font = \<lparr>m_glyphs = [], m_glyphBoundingBoxes = []\<rparr>"

text \<open>
  A font of 95 glyphs, from the space to the tilde, with shapes for the question mark, the
  letters A, B and C, and the tilde; and a GAL with glyphs of size 10 and lines of width 1.
\<close>

definition example_font :: STROKE_FONT where
  "example_font =
     \<lparr>m_glyphs =
        (replicate 95 [])
          [31 := [[VECTOR2D 0 (- 1), VECTOR2D (1 / 2) 0]],
           33 := [[VECTOR2D 0 0, VECTOR2D (2 / 5) (- 1), VECTOR2D (4 / 5) 0],
                  [VECTOR2D (1 / 5) (- (1 / 2)), VECTOR2D (3 / 5) (- (1 / 2))]],
           34 := [[VECTOR2D 0 0, VECTOR2D 0 (- 1), VECTOR2D (1 / 2) (- (1 / 2)), VECTOR2D 0 0]],
           35 := [[VECTOR2D (1 / 2) (- 1), VECTOR2D 0 (- (1 / 2)), VECTOR2D (1 / 2) 0]],
           94 := [[VECTOR2D 0 (- (1 / 2)), VECTOR2D (1 / 2) (- (3 / 5))]]],
      m_glyphBoundingBoxes =
        (replicate 95 (BOX2D (VECTOR2D 0 0) (VECTOR2D (1 / 2) 0)))
          [31 := BOX2D (VECTOR2D 0 (- 1)) (VECTOR2D (3 / 5) 1),
           33 := BOX2D (VECTOR2D 0 (- 1)) (VECTOR2D 1 1),
           34 := BOX2D (VECTOR2D 0 (- 1)) (VECTOR2D (7 / 10) 1),
           35 := BOX2D (VECTOR2D 0 (- 1)) (VECTOR2D (7 / 10) 1),
           94 := BOX2D (VECTOR2D 0 (- (3 / 5))) (VECTOR2D (3 / 5) (1 / 10))]\<rparr>"

definition example_gal :: GAL where
  "example_gal =
     \<lparr>glyphSize = VECTOR2D 10 10, lineWidth = 1, fontBold = False, fontItalic = False,
      textMirrored = False, horizontalJustify = GR_TEXT_HJUSTIFY_LEFT,
      verticalJustify = GR_TEXT_VJUSTIFY_CENTER, isStrokeEnabled = False, calls = []\<rparr>"

definition example_locals :: draw_locals where
  "example_locals =
     \<lparr>overbar = True, last_had_overbar = False, xOffset = 0, gal = example_gal\<rparr>"

text \<open>
  Instances of the parameters of \<open>Draw\<close>. The rounding is a coarse one, to the next multiple
  of \<open>2^-10\<close>.
\<close>

definition example_rnd :: "real \<Rightarrow> real" where
  "example_rnd x = real_of_int (round (x * 1024)) / 1024"

definition example_KiROUND :: "real \<Rightarrow> int" where
  "example_KiROUND v = (if v < 0 then \<lceil>v - 1 / 2\<rceil> else \<lfloor>v + 1 / 2\<rfloor>)"

definition example_linesCount :: "UTF8 \<Rightarrow> int" where
  "example_linesCount aText = (if aText = [] then 0 else int (count_list aText line_feed) + 1)"

section \<open>Properties of the painter's dispatch\<close>

text \<open>
  C9. For every item and layer, \<open>PCB_PAINTER::Draw\<close> returns true exactly when the item's
  type is one of the eleven kinds the switch handles; for every other type it returns false
  and leaves the drawing state as it found it: no call is issued.
\<close>

theorem PCB_PAINTER_Draw_dispatch:
  "fst (PCB_PAINTER_Draw p aItem aLayer g) = (Type aItem \<in> handled_types) \<and>
   (Type aItem \<notin> handled_types \<longrightarrow> PCB_PAINTER_Draw p aItem aLayer g = (False, g))"
  by (cases "Type aItem") (simp_all add: PCB_PAINTER_Draw_def handled_types_def)

theorem PCB_PAINTER_Draw_dispatch_witness:
  "OTHER_T 0 \<notin> handled_types \<and>
   PCB_PAINTER_Draw counting_painter \<lparr>Type = OTHER_T 0, data = ()\<rparr> 3 0 = (False, 0) \<and>
   PCB_PAINTER_Draw counting_painter \<lparr>Type = PCB_VIA_T, data = ()\<rparr> 3 0 = (True, 1)"
  using PCB_PAINTER_Draw_dispatch [of counting_painter "\<lparr>Type = OTHER_T 0, data = ()\<rparr>" 3 0]
  by (simp add: handled_types_def PCB_PAINTER_Draw_def counting_painter_def)

section \<open>Properties of loading a glyph table\<close>

lemma decode_glyph_end: "decode_glyph s (length s) st = Inr st"
  by (subst decode_glyph.simps) (simp add: char_at_def)

lemma decode_glyph_zero: "i < length s \<Longrightarrow> s ! i = 0 \<Longrightarrow> decode_glyph s i st = Inr st"
  by (subst decode_glyph.simps) (simp add: char_at_def)

lemma decode_glyph_step:
  "i + 1 < length s \<Longrightarrow> s ! i \<noteq> 0 \<Longrightarrow>
   decode_glyph s i st = decode_glyph s (i + 2) (decode_pair i (s ! i) (s ! (i + 1)) st)"
  by (subst decode_glyph.simps) (simp add: char_at_def)

lemma decode_glyph_odd_end:
  "i + 1 = length s \<Longrightarrow> s ! i \<noteq> 0 \<Longrightarrow> decode_glyph s i st = Inl OutOfBounds"
  by (subst decode_glyph.simps, simp add: char_at_def, subst decode_glyph.simps,
      simp add: char_at_def)

lemma even_lt_Suc: "even (n::nat) \<Longrightarrow> even i \<Longrightarrow> i < n \<Longrightarrow> i + 1 < n"
  by (cases "i + 1 = n") auto

text \<open>On a string of even length the decoding loop ends within the string.\<close>

lemma decode_glyph_even:
  "even (length s) \<Longrightarrow> even i \<Longrightarrow> i \<le> length s \<Longrightarrow> \<exists>st'. decode_glyph s i st = Inr st'"
proof (induction s i st rule: decode_glyph.induct)
  case (1 s i st)
  show ?case
  proof (cases "i = length s")
    case True
    then show ?thesis by (simp add: decode_glyph_end)
  next
    case False
    with "1.prems" have lt: "i + 1 < length s"
      using even_lt_Suc [of "length s" i] by simp
    show ?thesis
    proof (cases "s ! i = 0")
      case True
      with lt show ?thesis by (simp add: decode_glyph_zero)
    next
      case nz: False
      from lt have c0: "char_at s i = Inr (s ! i)"
        and c1: "char_at s (i + 1) = Inr (s ! (i + 1))"
        by (simp_all add: char_at_def)
      from "1.IH" [OF c0 nz c1] "1.prems" lt
      obtain st' where
        "decode_glyph s (i + 2) (decode_pair i (s ! i) (s ! (i + 1)) st) = Inr st'"
        by auto
      with lt nz show ?thesis by (simp add: decode_glyph_step)
    qed
  qed
qed

lemma load_glyph_even: "even (length s) \<Longrightarrow> \<exists>r. load_glyph s = Inr r"
  using decode_glyph_even [of s 0 glyph_locals_init] by (auto simp: load_glyph_def)

lemma load_loop_total:
  "0 \<le> j \<Longrightarrow> n \<le> int (length tbl) \<Longrightarrow> (\<forall>k<nat n. even (length (tbl ! k))) \<Longrightarrow>
   \<exists>F'. load_loop C tbl n j F = Inr F' \<and>
     length (m_glyphs F') = length (m_glyphs F) \<and>
     length (m_glyphBoundingBoxes F') = length (m_glyphBoundingBoxes F)"
proof (induction C tbl n j F rule: load_loop.induct)
  case (1 C tbl n j F)
  show ?case
  proof (cases "j < n")
    case False
    then show ?thesis by (subst load_loop.simps) simp
  next
    case True
    with "1.prems" have jl: "nat j < length tbl" and jn: "nat j < nat n" by simp_all
    with "1.prems" have e: "elem_at tbl j = Inr (tbl ! nat j)" by (simp add: elem_at_def)
    from jn "1.prems" obtain gl bx where lg: "load_glyph (tbl ! nat j) = Inr (gl, bx)"
      using load_glyph_even [of "tbl ! nat j"] by auto
    from "1.IH" [OF True e lg refl] "1.prems"
    show ?thesis by (subst load_loop.simps) (simp add: True e lg)
  qed
qed

lemma elem_at_glyph_index:
  "font_loaded F \<Longrightarrow>
   elem_at (m_glyphs F) (glyph_index F ch) = Inr (m_glyphs F ! nat (glyph_index F ch)) \<and>
   elem_at (m_glyphBoundingBoxes F) (glyph_index F ch) =
     Inr (m_glyphBoundingBoxes F ! nat (glyph_index F ch))"
  by (auto simp: font_loaded_def elem_at_def glyph_index_def Let_def ord_def)


text \<open>
  C10, as amended. For every table that holds at least \<open>n\<close> entries, each of even length,
  and every \<open>n \<ge> 0\<close>, \<open>LoadNewStrokeFont\<close> returns true, and afterwards \<open>m_glyphs\<close> and
  \<open>m_glyphBoundingBoxes\<close> hold \<open>n\<close> entries each; when \<open>n\<close> exceeds the index of the question
  mark, the index chosen for any code point is valid in both.
\<close>

theorem LoadNewStrokeFont_sizes:
  assumes "0 \<le> n" and "n \<le> int (length tbl)"
    and "\<forall>j<nat n. even (length (tbl ! j))"
  shows "\<exists>F'. LoadNewStrokeFont C tbl n F = Inr (True, F') \<and>
           length (m_glyphs F') = nat n \<and> length (m_glyphBoundingBoxes F') = nat n \<and>
           (ord CHR ''?'' - ord CHR '' '' < n \<longrightarrow>
              (\<forall>ch. \<exists>gl box. elem_at (m_glyphs F') (glyph_index F' ch) = Inr gl \<and>
                 elem_at (m_glyphBoundingBoxes F') (glyph_index F' ch) = Inr box))"
proof -
  let ?F = "F\<lparr>m_glyphs := replicate (nat n) [],
              m_glyphBoundingBoxes :=
                replicate (nat n) (BOX2D (VECTOR2D 0 0) (VECTOR2D 0 0))\<rparr>"
  from load_loop_total [OF _ assms(2,3), of 0 C ?F]
  obtain F' where run: "load_loop C tbl n 0 ?F = Inr F'"
    and len: "length (m_glyphs F') = nat n" "length (m_glyphBoundingBoxes F') = nat n"
    by auto
  from run assms(1) have "LoadNewStrokeFont C tbl n F = Inr (True, F')"
    by (simp add: LoadNewStrokeFont_def)
  moreover have "ord CHR ''?'' - ord CHR '' '' < n \<longrightarrow>
              (\<forall>ch. \<exists>gl box. elem_at (m_glyphs F') (glyph_index F' ch) = Inr gl \<and>
                 elem_at (m_glyphBoundingBoxes F') (glyph_index F' ch) = Inr box)"
  proof
    assume "ord CHR ''?'' - ord CHR '' '' < n"
    with len have "font_loaded F'" by (simp add: font_loaded_def)
    then show "\<forall>ch. \<exists>gl box. elem_at (m_glyphs F') (glyph_index F' ch) = Inr gl \<and>
                 elem_at (m_glyphBoundingBoxes F') (glyph_index F' ch) = Inr box"
      using elem_at_glyph_index by blast
  qed
  ultimately show ?thesis using len by blast
qed

theorem LoadNewStrokeFont_sizes_witness:
  "\<exists>F'. LoadNewStrokeFont example_Compute example_table 2 empty_font = Inr (True, F') \<and>
     length (m_glyphs F') = 2 \<and> length (m_glyphBoundingBoxes F') = 2"
proof -
  have "\<forall>j<nat 2. even (length (example_table ! j))"
    by (auto simp: example_table_def cstr_def nth_Cons' less_2_cases_iff)
  moreover have "(2::int) \<le> int (length example_table)"
    by (simp add: example_table_def)
  ultimately show ?thesis
    using LoadNewStrokeFont_sizes [of 2 example_table example_Compute empty_font]
    by auto
qed

text \<open>
  The claim as it stands fails on a string of odd length: after the last, incomplete pair
  the loop reads beyond the terminator.
\<close>

lemma load_glyph_odd: "load_glyph (cstr ''RRA'') = Inl OutOfBounds"
proof -
  have "decode_glyph (cstr ''RRA'') 0 glyph_locals_init =
          decode_glyph (cstr ''RRA'') 2 (decode_pair 0 82 82 glyph_locals_init)"
    using decode_glyph_step [of 0 "cstr ''RRA''" glyph_locals_init]
    by (simp add: cstr_def ord_def numeral_2_eq_2)
  also have "\<dots> = Inl OutOfBounds"
    by (rule decode_glyph_odd_end) (simp_all add: cstr_def ord_def)
  finally show ?thesis by (simp add: load_glyph_def)
qed

theorem LoadNewStrokeFont_odd_string:
  "LoadNewStrokeFont example_Compute [cstr ''RRA''] 1 empty_font = Inl OutOfBounds"
  by (simp add: LoadNewStrokeFont_def load_loop.simps [of _ _ _ 0] elem_at_def load_glyph_odd)


subsection \<open>The decoding of a glyph string\<close>

lemma pairs_drop:
  "i + 1 < length s \<Longrightarrow> pairs (drop i s) = (s ! i, s ! (i + 1)) # pairs (drop (i + 2) s)"
proof -
  assume a: "i + 1 < length s"
  then have "drop i s = s ! i # drop (Suc i) s" by (simp add: Cons_nth_drop_Suc)
  moreover from a have "drop (Suc i) s = s ! (Suc i) # drop (Suc (Suc i)) s"
    by (simp add: Cons_nth_drop_Suc)
  ultimately show ?thesis by simp
qed

lemma decode_pair_sim:
  "2 \<le> i \<Longrightarrow> sim st acc \<Longrightarrow>
   sim (decode_pair i c0 c1 st) (spec_pair (glyphStartX st) acc (c0, c1)) \<and>
   glyphStartX (decode_pair i c0 c1 st) = glyphStartX st \<and>
   glyphEndX (decode_pair i c0 c1 st) = glyphEndX st \<and>
   glyphBoundingX (decode_pair i c0 c1 st) = glyphBoundingX st"
  by (auto simp: sim_def decode_pair_def spec_pair_def spec_point_def spec_coordinate_def
      STROKE_FONT_SCALE_def FONT_OFFSET_def)

lemma decode_glyph_sim:
  "even (length s) \<Longrightarrow> even i \<Longrightarrow> 2 \<le> i \<Longrightarrow> i \<le> length s \<Longrightarrow> 0 \<notin> set s \<Longrightarrow> sim st acc \<Longrightarrow>
   \<exists>st'. decode_glyph s i st = Inr st' \<and>
     sim st' (foldl (spec_pair (glyphStartX st)) acc (pairs (drop i s))) \<and>
     glyphStartX st' = glyphStartX st \<and> glyphEndX st' = glyphEndX st \<and>
     glyphBoundingX st' = glyphBoundingX st"
proof (induction s i st arbitrary: acc rule: decode_glyph.induct)
  case (1 s i st)
  show ?case
  proof (cases "i = length s")
    case True
    with "1.prems" show ?thesis by (simp add: decode_glyph_end)
  next
    case False
    with "1.prems" have lt: "i + 1 < length s" using even_lt_Suc [of "length s" i] by simp
    with "1.prems" have nz: "s ! i \<noteq> 0" by (metis add_lessD1 nth_mem)
    from lt have c0: "char_at s i = Inr (s ! i)" and c1: "char_at s (i + 1) = Inr (s ! (i + 1))"
      by (simp_all add: char_at_def)
    let ?st = "decode_pair i (s ! i) (s ! (i + 1)) st"
    let ?acc = "spec_pair (glyphStartX st) acc (s ! i, s ! (i + 1))"
    from decode_pair_sim [OF \<open>2 \<le> i\<close> \<open>sim st acc\<close>, of "s ! i" "s ! (i + 1)"]
    have s1: "sim ?st ?acc" and keep: "glyphStartX ?st = glyphStartX st"
      "glyphEndX ?st = glyphEndX st" "glyphBoundingX ?st = glyphBoundingX st"
      by simp_all
    from "1.IH" [OF c0 nz c1, of ?acc] "1.prems" lt s1
    obtain st' where "decode_glyph s (i + 2) ?st = Inr st'"
      "sim st' (foldl (spec_pair (glyphStartX ?st)) ?acc (pairs (drop (i + 2) s)))"
      "glyphStartX st' = glyphStartX ?st" "glyphEndX st' = glyphEndX ?st"
      "glyphBoundingX st' = glyphBoundingX ?st"
      by auto
    with keep lt nz show ?thesis
      by (simp add: decode_glyph_step pairs_drop)
  qed
qed

lemma decode_glyph_spec:
  assumes "glyph_string s"
  shows "\<exists>st. decode_glyph s 0 glyph_locals_init = Inr st \<and>
           glyphStartX st = spec_coordinate (s ! 0) \<and>
           glyphEndX st = spec_coordinate (s ! 1) \<and>
           glyphBoundingX st = VECTOR2D 0 (glyphEndX st - glyphStartX st) \<and>
           sim st (foldl (spec_pair (spec_coordinate (s ! 0))) ([], []) (pairs (drop 2 s)))"
proof -
  from assms have ev: "even (length s)" and l2: "2 \<le> length s" and nz0: "0 \<notin> set s"
    by (simp_all add: glyph_string_def)
  let ?st = "decode_pair 0 (s ! 0) (s ! 1) glyph_locals_init"
  from l2 nz0 have nz: "s ! 0 \<noteq> 0"
    by (metis length_greater_0_conv list.size(3) not_numeral_le_zero nth_mem)
  from l2 nz have step: "decode_glyph s 0 glyph_locals_init = decode_glyph s 2 ?st"
    using decode_glyph_step [of 0 s glyph_locals_init] by (simp add: numeral_2_eq_2)
  have st: "glyphStartX ?st = spec_coordinate (s ! 0)"
    "glyphEndX ?st = spec_coordinate (s ! 1)"
    "glyphBoundingX ?st = VECTOR2D 0 (spec_coordinate (s ! 1) - spec_coordinate (s ! 0))"
    "sim ?st ([], [])"
    by (simp_all add: decode_pair_def spec_coordinate_def STROKE_FONT_SCALE_def sim_def
        glyph_locals_init_def Let_def)
  from decode_glyph_sim [OF ev _ _ l2 nz0 st(4)] st
  obtain st' where "decode_glyph s 2 ?st = Inr st'"
    "sim st' (foldl (spec_pair (spec_coordinate (s ! 0))) ([], []) (pairs (drop 2 s)))"
    "glyphStartX st' = spec_coordinate (s ! 0)"
    "glyphEndX st' = spec_coordinate (s ! 1)"
    "glyphBoundingX st' = VECTOR2D 0 (spec_coordinate (s ! 1) - spec_coordinate (s ! 0))"
    by auto
  with step show ?thesis by simp
qed

lemma load_glyph_spec:
  assumes "glyph_string s"
  shows "load_glyph s =
           Inr (spec_glyph s, VECTOR2D 0 (spec_coordinate (s ! 1) - spec_coordinate (s ! 0)))"
  using decode_glyph_spec [OF assms]
  by (auto simp: load_glyph_def spec_glyph_def sim_def Let_def)


lemma load_loop_spec:
  "0 \<le> j \<Longrightarrow> n \<le> int (length tbl) \<Longrightarrow> (\<forall>k<nat n. glyph_string (tbl ! k)) \<Longrightarrow>
   length (m_glyphs F) = nat n \<Longrightarrow> length (m_glyphBoundingBoxes F) = nat n \<Longrightarrow>
   \<exists>F'. load_loop C tbl n j F = Inr F' \<and>
     (\<forall>k<nat n. m_glyphs F' ! k = (if nat j \<le> k then spec_glyph (tbl ! k) else m_glyphs F ! k) \<and>
        m_glyphBoundingBoxes F' ! k =
          (if nat j \<le> k
           then computeBoundingBox C (spec_glyph (tbl ! k))
                  (VECTOR2D 0 (spec_coordinate (tbl ! k ! 1) - spec_coordinate (tbl ! k ! 0)))
           else m_glyphBoundingBoxes F ! k))"
proof (induction C tbl n j F rule: load_loop.induct)
  case (1 C tbl n j F)
  show ?case
  proof (cases "j < n")
    case False
    then show ?thesis by (subst load_loop.simps) auto
  next
    case True
    with "1.prems" have jl: "nat j < length tbl" and jn: "nat j < nat n" by simp_all
    with "1.prems" have e: "elem_at tbl j = Inr (tbl ! nat j)" by (simp add: elem_at_def)
    let ?s = "tbl ! nat j"
    let ?gl = "spec_glyph ?s"
    let ?bx = "VECTOR2D 0 (spec_coordinate (?s ! 1) - spec_coordinate (?s ! 0))"
    let ?F = "F\<lparr>m_glyphs := (m_glyphs F)[nat j := ?gl],
               m_glyphBoundingBoxes :=
                 (m_glyphBoundingBoxes F)[nat j := computeBoundingBox C ?gl ?bx]\<rparr>"
    from jn "1.prems" have "glyph_string ?s" by simp
    then have lg: "load_glyph ?s = Inr (?gl, ?bx)"
      by (rule load_glyph_spec)
    from "1.IH" [OF True e lg refl] "1.prems"
    obtain F' where run: "load_loop C tbl n (j + 1) ?F = Inr F'"
      and ent: "\<forall>k<nat n. m_glyphs F' ! k =
          (if nat (j + 1) \<le> k then spec_glyph (tbl ! k) else m_glyphs ?F ! k) \<and>
        m_glyphBoundingBoxes F' ! k =
          (if nat (j + 1) \<le> k
           then computeBoundingBox C (spec_glyph (tbl ! k))
                  (VECTOR2D 0 (spec_coordinate (tbl ! k ! 1) - spec_coordinate (tbl ! k ! 0)))
           else m_glyphBoundingBoxes ?F ! k)"
      by auto
    have "load_loop C tbl n j F = Inr F'"
      using run by (subst load_loop.simps) (simp add: True e lg)
    moreover have "m_glyphs F' ! k =
          (if nat j \<le> k then spec_glyph (tbl ! k) else m_glyphs F ! k) \<and>
        m_glyphBoundingBoxes F' ! k =
          (if nat j \<le> k
           then computeBoundingBox C (spec_glyph (tbl ! k))
                  (VECTOR2D 0 (spec_coordinate (tbl ! k ! 1) - spec_coordinate (tbl ! k ! 0)))
           else m_glyphBoundingBoxes F ! k)" if kn: "k < nat n" for k
    proof (cases "k = nat j")
      case True
      with ent kn "1.prems" show ?thesis by (simp add: nat_add_distrib)
    next
      case False
      with ent kn "1.prems" show ?thesis by (auto simp: nat_add_distrib)
    qed
    ultimately show ?thesis by blast
  qed
qed

text \<open>
  C3. For every entry of the table that is a glyph string, \<open>LoadNewStrokeFont\<close> decodes it
  as the format says: the first two characters give \<open>glyphStartX\<close> and \<open>glyphEndX\<close>, each
  the character less \<open>R\<close>, times 1/21; of the pairs after them, a space with an \<open>R\<close> ends
  the current stroke and starts a new one, and any other pair adds its point to the current
  stroke (\<open>spec_glyph\<close>). The glyph stored is the list of these strokes, and the box stored
  is computed from them and from the pair \<open>(0, glyphEndX - glyphStartX)\<close>.
\<close>

theorem LoadNewStrokeFont_decodes:
  assumes "0 \<le> n" and "n \<le> int (length tbl)"
    and "\<forall>j<nat n. glyph_string (tbl ! j)"
  shows "\<exists>F'. LoadNewStrokeFont C tbl n F = Inr (True, F') \<and>
           (\<forall>j<nat n. \<exists>st.
              decode_glyph (tbl ! j) 0 glyph_locals_init = Inr st \<and>
              glyphStartX st = real_of_int (tbl ! j ! 0 - ord CHR ''R'') * (1 / 21) \<and>
              glyphEndX st = real_of_int (tbl ! j ! 1 - ord CHR ''R'') * (1 / 21) \<and>
              m_glyphs F' ! j = spec_glyph (tbl ! j) \<and>
              m_glyphBoundingBoxes F' ! j =
                computeBoundingBox C (spec_glyph (tbl ! j))
                  (VECTOR2D 0 (glyphEndX st - glyphStartX st)))"
proof -
  let ?F = "F\<lparr>m_glyphs := replicate (nat n) [],
              m_glyphBoundingBoxes :=
                replicate (nat n) (BOX2D (VECTOR2D 0 0) (VECTOR2D 0 0))\<rparr>"
  from load_loop_spec [OF _ assms(2,3), of 0 ?F C]
  obtain F' where run: "load_loop C tbl n 0 ?F = Inr F'"
    and ent: "\<forall>k<nat n. m_glyphs F' ! k = spec_glyph (tbl ! k) \<and>
        m_glyphBoundingBoxes F' ! k =
          computeBoundingBox C (spec_glyph (tbl ! k))
            (VECTOR2D 0 (spec_coordinate (tbl ! k ! 1) - spec_coordinate (tbl ! k ! 0)))"
    by auto
  from run assms(1) have "LoadNewStrokeFont C tbl n F = Inr (True, F')"
    by (simp add: LoadNewStrokeFont_def)
  moreover have "\<exists>st.
              decode_glyph (tbl ! j) 0 glyph_locals_init = Inr st \<and>
              glyphStartX st = real_of_int (tbl ! j ! 0 - ord CHR ''R'') * (1 / 21) \<and>
              glyphEndX st = real_of_int (tbl ! j ! 1 - ord CHR ''R'') * (1 / 21) \<and>
              m_glyphs F' ! j = spec_glyph (tbl ! j) \<and>
              m_glyphBoundingBoxes F' ! j =
                computeBoundingBox C (spec_glyph (tbl ! j))
                  (VECTOR2D 0 (glyphEndX st - glyphStartX st))" if "j < nat n" for j
  proof -
    from that assms(3) have "glyph_string (tbl ! j)" by simp
    from decode_glyph_spec [OF this]
    obtain st where d: "decode_glyph (tbl ! j) 0 glyph_locals_init = Inr st"
      and a: "glyphStartX st = spec_coordinate (tbl ! j ! 0)"
      and b: "glyphEndX st = spec_coordinate (tbl ! j ! 1)"
      by blast
    from ent that have e1: "m_glyphs F' ! j = spec_glyph (tbl ! j)"
      and e2: "m_glyphBoundingBoxes F' ! j =
          computeBoundingBox C (spec_glyph (tbl ! j))
            (VECTOR2D 0 (spec_coordinate (tbl ! j ! 1) - spec_coordinate (tbl ! j ! 0)))"
      by simp_all
    from e2 have "m_glyphBoundingBoxes F' ! j =
        computeBoundingBox C (spec_glyph (tbl ! j)) (VECTOR2D 0 (glyphEndX st - glyphStartX st))"
      by (simp only: a b)
    with d a [unfolded spec_coordinate_def] b [unfolded spec_coordinate_def] e1
    show ?thesis by blast
  qed
  ultimately show ?thesis by blast
qed

lemma example_table_strings: "\<forall>j<nat 2. glyph_string (example_table ! j)"
  by (auto simp: example_table_def cstr_def nth_Cons' less_2_cases_iff glyph_string_def ord_def)

lemma spec_glyph_example:
  "spec_glyph (example_table ! 1) =
     [[VECTOR2D (2 / 7) (- (1 / 3)), VECTOR2D (8 / 21) (1 / 21)], [VECTOR2D (1 / 21) (- (5 / 21))]]"
  by (simp add: example_table_def cstr_def spec_glyph_def spec_pair_def spec_point_def
      spec_coordinate_def ord_def)

theorem LoadNewStrokeFont_decodes_witness:
  "\<exists>F'. LoadNewStrokeFont example_Compute example_table 2 empty_font = Inr (True, F') \<and>
     m_glyphs F' ! 1 =
       [[VECTOR2D (2 / 7) (- (1 / 3)), VECTOR2D (8 / 21) (1 / 21)],
        [VECTOR2D (1 / 21) (- (5 / 21))]]"
proof -
  have "(2::int) \<le> int (length example_table)"
    by (simp add: example_table_def)
  from LoadNewStrokeFont_decodes [OF _ this example_table_strings, of example_Compute empty_font]
  obtain F' where run:
    "LoadNewStrokeFont example_Compute example_table 2 empty_font = Inr (True, F')"
    and ent: "\<forall>j<nat 2. \<exists>st. decode_glyph (example_table ! j) 0 glyph_locals_init = Inr st \<and>
              glyphStartX st = real_of_int (example_table ! j ! 0 - ord CHR ''R'') * (1 / 21) \<and>
              glyphEndX st = real_of_int (example_table ! j ! 1 - ord CHR ''R'') * (1 / 21) \<and>
              m_glyphs F' ! j = spec_glyph (example_table ! j) \<and>
              m_glyphBoundingBoxes F' ! j =
                computeBoundingBox example_Compute (spec_glyph (example_table ! j))
                  (VECTOR2D 0 (glyphEndX st - glyphStartX st))"
    by auto
  have "(1::nat) < nat 2" by simp
  from ent [rule_format, OF this] have "m_glyphs F' ! 1 = spec_glyph (example_table ! 1)"
    by blast
  with run show ?thesis using spec_glyph_example by simp
qed

section \<open>Properties of drawing\<close>

lemmas gal_ops = issue_def Save_def Restore_def Translate_def Rotate_def SetIsStroke_def
  SetLineWidth_def DrawLine_def DrawPolyline_def

lemma glyph_point_calls [simp]: "glyph_point (g\<lparr>calls := cs\<rparr>) = glyph_point g"
  by (rule ext)+ (simp add: glyph_point_def Let_def)

lemma computeOverbarVerticalPosition_calls [simp]:
  "computeOverbarVerticalPosition (g\<lparr>calls := cs\<rparr>) = computeOverbarVerticalPosition g"
  by (simp add: computeOverbarVerticalPosition_def)

lemma fold_DrawPolyline:
  "fold (\<lambda>pl. DrawPolyline (f pl)) gl g =
     g\<lparr>calls := calls g @ map (\<lambda>pl. DrawPolylineCall (f pl)) gl\<rparr>"
  by (induction gl arbitrary: g) (simp_all add: gal_ops)

lemma draw_char_eq:
  "draw_char F gs icomp ch st =
     (case elem_at (m_glyphs F) (glyph_index F ch) of
        Inl e \<Rightarrow> Inl e
      | Inr gl \<Rightarrow>
          (case elem_at (m_glyphBoundingBoxes F) (glyph_index F ch) of
             Inl e \<Rightarrow> Inl e
           | Inr bbox \<Rightarrow>
               Inr (st\<lparr>last_had_overbar := overbar st,
                       xOffset := xOffset st + vx gs * vx (GetEnd bbox),
                       gal := (gal st)\<lparr>calls := calls (gal st) @
                         char_calls (gal st) gs icomp (overbar st) (last_had_overbar st)
                           (xOffset st) gl bbox\<rparr>\<rparr>)))"
  by (simp add: draw_char_def Let_def fold_DrawPolyline char_calls_def gal_ops
      split: sum.splits)

text \<open>
  C1. A code point whose index, its value less that of the space, is negative or not below
  the size of the table of bounding boxes is given the index of the question mark, and the
  bodies of both loops, the one that draws and the one that measures, do for it exactly what
  they do for a question mark: the same glyph and the same box are looked up and used.
\<close>

theorem glyph_fallback:
  assumes "int ch - ord CHR '' '' < 0 \<or>
           int ch - ord CHR '' '' \<ge> int (length (m_glyphBoundingBoxes F))"
  shows "glyph_index F ch = ord CHR ''?'' - ord CHR '' '' \<and>
         glyph_index F ch = glyph_index F (of_char CHR ''?'') \<and>
         draw_char F gs icomp ch st = draw_char F gs icomp (of_char CHR ''?'') st \<and>
         limits_char F aTopLimit aBottomLimit ch ls =
           limits_char F aTopLimit aBottomLimit (of_char CHR ''?'') ls"
proof -
  from assms have a: "glyph_index F ch = ord CHR ''?'' - ord CHR '' ''"
    by (auto simp: glyph_index_def Let_def)
  have b: "glyph_index F (of_char CHR ''?'') = ord CHR ''?'' - ord CHR '' ''"
    by (simp add: glyph_index_def Let_def ord_def)
  from a b show ?thesis
    by (simp add: draw_char_def limits_char_def)
qed

lemma example_font_31:
  "m_glyphs example_font ! 31 = [[VECTOR2D 0 (- 1), VECTOR2D (1 / 2) 0]]"
  "m_glyphBoundingBoxes example_font ! 31 = BOX2D (VECTOR2D 0 (- 1)) (VECTOR2D (3 / 5) 1)"
  "length (m_glyphs example_font) = 95" "length (m_glyphBoundingBoxes example_font) = 95"
  by (simp_all add: example_font_def)

lemma draw_char_example:
  "draw_char example_font (VECTOR2D 10 10) 0 (of_char CHR ''?'') example_locals =
     Inr \<lparr>overbar = True, last_had_overbar = True, xOffset = 6,
          gal = example_gal\<lparr>calls :=
            [DrawLineCall (VECTOR2D 0 (- (66 / 5))) (VECTOR2D 6 (- (66 / 5))),
             DrawPolylineCall [VECTOR2D 0 (- 10), VECTOR2D 5 0]]\<rparr>\<rparr>"
  by (simp add: example_font_31 ord_def draw_char_eq elem_at_def example_locals_def
      example_gal_def char_calls_def glyph_point_def GetEnd_def glyph_index_def
      computeOverbarVerticalPosition_def ComputeOverbarVerticalPosition_def
      OVERBAR_POSITION_FACTOR_def)

theorem glyph_fallback_witness:
  "glyph_index example_font 200 = 31 \<and> glyph_index example_font 10 = 31 \<and>
   draw_char example_font (VECTOR2D 10 10) 0 200 example_locals =
     draw_char example_font (VECTOR2D 10 10) 0 (of_char CHR ''?'') example_locals \<and>
   draw_char example_font (VECTOR2D 10 10) 0 10 example_locals =
     Inr \<lparr>overbar = True, last_had_overbar = True, xOffset = 6,
          gal = example_gal\<lparr>calls :=
            [DrawLineCall (VECTOR2D 0 (- (66 / 5))) (VECTOR2D 6 (- (66 / 5))),
             DrawPolylineCall [VECTOR2D 0 (- 10), VECTOR2D 5 0]]\<rparr>\<rparr>"
  using glyph_fallback [of 200 example_font "VECTOR2D 10 10" 0 example_locals]
    glyph_fallback [of 10 example_font "VECTOR2D 10 10" 0 example_locals]
    draw_char_example
  by (simp add: example_font_31(4) ord_def)

subsection \<open>The glyphs of a loaded font\<close>

lemma draw_char_loaded:
  "font_loaded F \<Longrightarrow>
   draw_char F gs icomp ch st =
     Inr (st\<lparr>last_had_overbar := overbar st,
             xOffset := xOffset st + vx gs * vx (GetEnd (glyph_box F ch)),
             gal := (gal st)\<lparr>calls := calls (gal st) @
               char_calls (gal st) gs icomp (overbar st) (last_had_overbar st) (xOffset st)
                 (m_glyphs F ! nat (glyph_index F ch)) (glyph_box F ch)\<rparr>\<rparr>)"
  by (simp add: draw_char_eq elem_at_glyph_index glyph_box_def)

lemma limits_char_loaded:
  "font_loaded F \<Longrightarrow>
   limits_char F aTopLimit aBottomLimit ch ls =
     Inr (ls\<lparr>result_x := result_x ls + vx (GetEnd (glyph_box F ch)),
             ymax := (if aTopLimit
                      then max (max (ymax ls) (GetY (glyph_box F ch)))
                             (vy (GetEnd (glyph_box F ch)))
                      else ymax ls),
             ymin := (if aBottomLimit
                      then min (min (ymin ls) (GetY (glyph_box F ch)))
                             (vy (GetEnd (glyph_box F ch)))
                      else ymin ls)\<rparr>)"
  by (simp add: limits_char_def elem_at_glyph_index glyph_box_def)

lemma limits_char_advance:
  "font_loaded F \<Longrightarrow>
   \<exists>ls1. limits_char F aTopLimit aBottomLimit ch ls = Inr ls1 \<and>
     result_x ls1 = result_x ls + vx (GetEnd (glyph_box F ch))"
  by (simp add: limits_char_loaded)

lemma justify_horizontal_attrs [simp]:
  "glyphSize (justify_horizontal ts g) = glyphSize g"
  "lineWidth (justify_horizontal ts g) = lineWidth g"
  "fontItalic (justify_horizontal ts g) = fontItalic g"
  "textMirrored (justify_horizontal ts g) = textMirrored g"
  by (simp_all add: justify_horizontal_def gal_ops split: EDA_TEXT_HJUSTIFY_T.splits)

lemma draw_xOffset_line [simp]:
  "draw_xOffset (justify_horizontal ts (Save (Translate v g))) ts' = draw_xOffset g ts'"
  by (simp add: draw_xOffset_def gal_ops)

lemma example_font_loaded: "font_loaded example_font"
  by (simp add: font_loaded_def example_font_def ord_def)

lemma example_font_A:
  "glyph_index example_font 65 = 33"
  "glyph_box example_font 65 = BOX2D (VECTOR2D 0 (- 1)) (VECTOR2D 1 1)"
  "m_glyphs example_font ! 33 =
     [[VECTOR2D 0 0, VECTOR2D (2 / 5) (- 1), VECTOR2D (4 / 5) 0],
      [VECTOR2D (1 / 5) (- (1 / 2)), VECTOR2D (3 / 5) (- (1 / 2))]]"
  by (simp_all add: glyph_index_def glyph_box_def example_font_def ord_def)

lemma example_font_B:
  "glyph_index example_font 66 = 34"
  "glyph_box example_font 66 = BOX2D (VECTOR2D 0 (- 1)) (VECTOR2D (7 / 10) 1)"
  "m_glyphs example_font ! 34 =
     [[VECTOR2D 0 0, VECTOR2D 0 (- 1), VECTOR2D (1 / 2) (- (1 / 2)), VECTOR2D 0 0]]"
  by (simp_all add: glyph_index_def glyph_box_def example_font_def ord_def)

lemma example_font_C:
  "glyph_index example_font 67 = 35"
  "glyph_box example_font 67 = BOX2D (VECTOR2D 0 (- 1)) (VECTOR2D (7 / 10) 1)"
  "m_glyphs example_font ! 35 =
     [[VECTOR2D (1 / 2) (- 1), VECTOR2D 0 (- (1 / 2)), VECTOR2D (1 / 2) 0]]"
  by (simp_all add: glyph_index_def glyph_box_def example_font_def ord_def)

lemma example_font_tilde:
  "glyph_index example_font 126 = 94"
  "glyph_box example_font 126 = BOX2D (VECTOR2D 0 (- (3 / 5))) (VECTOR2D (3 / 5) (1 / 10))"
  "m_glyphs example_font ! 94 =
     [[VECTOR2D 0 (- (1 / 2)), VECTOR2D (1 / 2) (- (3 / 5))]]"
  by (simp_all add: glyph_index_def glyph_box_def example_font_def ord_def)

lemmas line_eval = drawSingleLineText_def drawSingleLineText_locals_def computeTextLineSize_def
  ComputeStringBoundaryLimits_def limits_char_loaded draw_char_loaded Let_def utf8_def tilde_def
  justify_horizontal_def draw_xOffset_def draw_glyphSize_def draw_overbar_italic_comp_def
  gal_ops

subsection \<open>Mirrored text\<close>

lemma primitives_append [simp]: "primitives (xs @ ys) = primitives xs @ primitives ys"
  by (simp add: primitives_def)

lemma primitives_char_calls [simp]:
  "primitives (char_calls g gs icomp ov lho xo gl bbox) = char_calls g gs icomp ov lho xo gl bbox"
  by (simp add: primitives_def char_calls_def filter_map comp_def)

lemma is_primitive_reflect [simp]: "is_primitive (reflect_call a c) = is_primitive c"
  by (cases c) simp_all

lemma primitives_reflect [simp]:
  "primitives (map (reflect_call a) cs) = map (reflect_call a) (primitives cs)"
  by (simp add: primitives_def filter_map comp_def)

lemma glyph_point_mirror:
  assumes "fontItalic gm = fontItalic gu" and "\<not> textMirrored gu" and "textMirrored gm"
  shows "glyph_point gm (VECTOR2D (- vx gs) (vy gs)) (a - xo) p =
           reflect_x a (glyph_point gu gs xo p)"
  using assms by (simp add: glyph_point_def reflect_x_def Let_def algebra_simps)

lemma char_calls_mirror:
  assumes "glyphSize gm = glyphSize gu" and "lineWidth gm = lineWidth gu"
    and "fontItalic gm = fontItalic gu" and "\<not> textMirrored gu" and "textMirrored gm"
  shows "char_calls gm (VECTOR2D (- vx gs) (vy gs)) (- icomp) ov lho (a - xo) gl bbox =
           map (reflect_call a) (char_calls gu gs icomp ov lho xo gl bbox)"
  using assms
  by (simp add: char_calls_def glyph_point_mirror [of gm gu] reflect_x_def
      computeOverbarVerticalPosition_def algebra_simps)

lemma draw_char_mirror:
  assumes "mirror_rel a pu pm su sm"
  shows "rel_sum (=) (mirror_rel a pu pm) (draw_char F gs icomp ch su)
           (draw_char F (VECTOR2D (- vx gs) (vy gs)) (- icomp) ch sm)"
proof (cases "elem_at (m_glyphs F) (glyph_index F ch)")
  case (Inl e)
  then show ?thesis by (simp add: draw_char_eq)
next
  case gl: (Inr gl)
  show ?thesis
  proof (cases "elem_at (m_glyphBoundingBoxes F) (glyph_index F ch)")
    case (Inl e)
    with gl show ?thesis by (simp add: draw_char_eq)
  next
    case bb: (Inr bbox)
    from assms obtain cu cm where c: "calls (gal su) = pu @ cu" "calls (gal sm) = pm @ cm"
      "primitives cm = map (reflect_call a) (primitives cu)"
      and eqs: "overbar sm = overbar su" "last_had_overbar sm = last_had_overbar su"
      "xOffset sm = a - xOffset su"
      and attrs: "glyphSize (gal sm) = glyphSize (gal su)" "lineWidth (gal sm) = lineWidth (gal su)"
      "fontItalic (gal sm) = fontItalic (gal su)" "\<not> textMirrored (gal su)"
      "textMirrored (gal sm)"
      unfolding mirror_rel_def by blast
    let ?ccu = "char_calls (gal su) gs icomp (overbar su) (last_had_overbar su) (xOffset su) gl bbox"
    let ?ccm = "char_calls (gal sm) (VECTOR2D (- vx gs) (vy gs)) (- icomp) (overbar sm)
                  (last_had_overbar sm) (xOffset sm) gl bbox"
    from char_calls_mirror [OF attrs] eqs have cc: "?ccm = map (reflect_call a) ?ccu"
      by simp
    have "mirror_rel a pu pm
            (su\<lparr>last_had_overbar := overbar su,
                xOffset := xOffset su + vx gs * vx (GetEnd bbox),
                gal := (gal su)\<lparr>calls := calls (gal su) @ ?ccu\<rparr>\<rparr>)
            (sm\<lparr>last_had_overbar := overbar sm,
                xOffset := xOffset sm + vx (VECTOR2D (- vx gs) (vy gs)) * vx (GetEnd bbox),
                gal := (gal sm)\<lparr>calls := calls (gal sm) @ ?ccm\<rparr>\<rparr>)"
      unfolding mirror_rel_def using c eqs attrs cc by (simp add: algebra_simps)
    with gl bb show ?thesis by (simp add: draw_char_eq)
  qed
qed

lemma mirror_rel_toggle:
  "mirror_rel a pu pm su sm \<Longrightarrow>
   mirror_rel a pu pm (su\<lparr>overbar := \<not> overbar su\<rparr>) (sm\<lparr>overbar := \<not> overbar sm\<rparr>)"
  by (simp add: mirror_rel_def)

lemma draw_loop_mirror:
  "mirror_rel a pu pm su sm \<Longrightarrow>
   rel_sum (=) (mirror_rel a pu pm) (draw_loop F gs icomp aText su)
     (draw_loop F (VECTOR2D (- vx gs) (vy gs)) (- icomp) aText sm)"
proof (induction F gs icomp aText su arbitrary: sm rule: draw_loop.induct)
  case (1 F gs icomp su)
  then show ?case by simp
next
  case (2 F gs icomp ch rest su)
  let ?gm = "VECTOR2D (- vx gs) (vy gs)"
  show ?case
  proof (cases "ch = tilde")
    case True
    show ?thesis
    proof (cases rest)
      case Nil
      with True "2.prems" show ?thesis by simp
    next
      case (Cons ch' rest')
      let ?su = "if ch' \<noteq> tilde then su\<lparr>overbar := \<not> overbar su\<rparr> else su"
      let ?sm = "if ch' \<noteq> tilde then sm\<lparr>overbar := \<not> overbar sm\<rparr> else sm"
      from "2.prems" have r0: "mirror_rel a pu pm ?su ?sm"
        by (simp add: mirror_rel_toggle)
      from draw_char_mirror [OF r0, of F gs icomp ch']
      have r1: "rel_sum (=) (mirror_rel a pu pm) (draw_char F gs icomp ch' ?su)
                  (draw_char F ?gm (- icomp) ch' ?sm)" .
      show ?thesis
      proof (cases "draw_char F gs icomp ch' ?su")
        case (Inl e)
        with r1 have "draw_char F ?gm (- icomp) ch' ?sm = Inl e"
          by (cases "draw_char F ?gm (- icomp) ch' ?sm") simp_all
        with Inl True Cons show ?thesis by simp
      next
        case (Inr su1)
        with r1 obtain sm1 where m: "draw_char F ?gm (- icomp) ch' ?sm = Inr sm1"
          and r2: "mirror_rel a pu pm su1 sm1"
          by (cases "draw_char F ?gm (- icomp) ch' ?sm") simp_all
        from "2.IH"(1) [OF True Cons Inr r2] Inr m True Cons show ?thesis by simp
      qed
    qed
  next
    case False
    from draw_char_mirror [OF "2.prems", of F gs icomp ch]
    have r1: "rel_sum (=) (mirror_rel a pu pm) (draw_char F gs icomp ch su)
                (draw_char F ?gm (- icomp) ch sm)" .
    show ?thesis
    proof (cases "draw_char F gs icomp ch su")
      case (Inl e)
      with r1 have "draw_char F ?gm (- icomp) ch sm = Inl e"
        by (cases "draw_char F ?gm (- icomp) ch sm") simp_all
      with Inl False show ?thesis by simp
    next
      case (Inr su1)
      with r1 obtain sm1 where m: "draw_char F ?gm (- icomp) ch sm = Inr sm1"
        and r2: "mirror_rel a pu pm su1 sm1"
        by (cases "draw_char F ?gm (- icomp) ch sm") simp_all
      from "2.IH"(2) [OF False Inr r2] Inr m False show ?thesis by simp
    qed
  qed
qed

lemma line_start_calls:
  "\<exists>pre. calls (justify_horizontal ts (Save (Translate v g))) = calls g @ pre \<and>
     primitives pre = []"
  by (cases "horizontalJustify g")
     (simp_all add: justify_horizontal_def gal_ops primitives_def)

lemma computeTextLineSize_mirrored [simp]:
  "computeTextLineSize F (g\<lparr>textMirrored := b\<rparr>) aText = computeTextLineSize F g aText"
  by (simp add: computeTextLineSize_def ComputeStringBoundaryLimits_def Let_def
      split: sum.splits)

lemma new_calls_line:
  assumes "calls g' = (calls g @ pre) @ cs" and "primitives pre = []"
  shows "primitives (new_calls g (Restore g')) = primitives cs"
  using assms by (simp add: new_calls_def gal_ops) (simp add: primitives_def)

text \<open>
  C5. For every single-line text whose size can be computed, the primitives that
  \<open>drawSingleLineText\<close> draws with mirroring on are, call by call and point by point, the
  reflection of those it draws with mirroring off, in the vertical axis through half of
  \<open>textSize.x - lineWidth\<close>, the value the mirrored run starts \<open>xOffset\<close> at; reflecting
  twice gives a point back, so reflecting the mirrored run gives the unmirrored one. A run
  that reads out of bounds does so with mirroring on and off. The arithmetic is exact here.
\<close>

theorem mirrored_rendering:
  assumes "computeTextLineSize F g aText = Inr textSize"
  shows "map_sum id (\<lambda>g'. primitives (new_calls g g'))
           (drawSingleLineText F aText (g\<lparr>textMirrored := True\<rparr>)) =
         map_sum id (\<lambda>g'. map (reflect_call (vx textSize - lineWidth g))
                              (primitives (new_calls g g')))
           (drawSingleLineText F aText (g\<lparr>textMirrored := False\<rparr>))"
proof -
  let ?gu = "g\<lparr>textMirrored := False\<rparr>" and ?gm = "g\<lparr>textMirrored := True\<rparr>"
  let ?a = "vx textSize - lineWidth g"
  let ?v = "VECTOR2D (lineWidth g / 2) 0"
  let ?g3u = "justify_horizontal textSize (Save (Translate ?v ?gu))"
  let ?g3m = "justify_horizontal textSize (Save (Translate ?v ?gm))"
  let ?su = "\<lparr>overbar = False, last_had_overbar = False, xOffset = 0, gal = ?g3u\<rparr>"
  let ?sm = "\<lparr>overbar = False, last_had_overbar = False, xOffset = ?a, gal = ?g3m\<rparr>"
  let ?gs = "glyphSize g"
  let ?ic = "computeOverbarVerticalPosition g * ITALIC_TILT"
  from line_start_calls [of textSize ?v ?gu]
  obtain pu where pu: "calls ?g3u = calls g @ pu" "primitives pu = []" by auto
  from line_start_calls [of textSize ?v ?gm]
  obtain pm where pm: "calls ?g3m = calls g @ pm" "primitives pm = []" by auto
  have rel0: "mirror_rel ?a (calls g @ pu) (calls g @ pm) ?su ?sm"
    unfolding mirror_rel_def using pu(1) pm(1) by (simp add: gal_ops primitives_def)
  have locu: "drawSingleLineText_locals F aText ?gu = draw_loop F ?gs ?ic aText ?su"
    using assms
    by (simp add: drawSingleLineText_locals_def Let_def draw_glyphSize_def gal_ops
        draw_overbar_italic_comp_def draw_xOffset_def computeOverbarVerticalPosition_def)
  have locm: "drawSingleLineText_locals F aText ?gm =
                draw_loop F (VECTOR2D (- vx ?gs) (vy ?gs)) (- ?ic) aText ?sm"
    using assms
    by (simp add: drawSingleLineText_locals_def Let_def draw_glyphSize_def gal_ops
        draw_overbar_italic_comp_def draw_xOffset_def computeOverbarVerticalPosition_def)
  from draw_loop_mirror [OF rel0, of F ?gs ?ic aText]
  have rel: "rel_sum (=) (mirror_rel ?a (calls g @ pu) (calls g @ pm))
               (drawSingleLineText_locals F aText ?gu) (drawSingleLineText_locals F aText ?gm)"
    by (simp only: locu locm)
  show ?thesis
  proof (cases "drawSingleLineText_locals F aText ?gu")
    case (Inl e)
    with rel have "drawSingleLineText_locals F aText ?gm = Inl e"
      by (cases "drawSingleLineText_locals F aText ?gm") simp_all
    with Inl show ?thesis by (simp add: drawSingleLineText_def)
  next
    case (Inr stu)
    with rel obtain stm where m: "drawSingleLineText_locals F aText ?gm = Inr stm"
      and r: "mirror_rel ?a (calls g @ pu) (calls g @ pm) stu stm"
      by (cases "drawSingleLineText_locals F aText ?gm") simp_all
    from r obtain cu cm where c: "calls (gal stu) = (calls g @ pu) @ cu"
      "calls (gal stm) = (calls g @ pm) @ cm"
      "primitives cm = map (reflect_call ?a) (primitives cu)"
      unfolding mirror_rel_def by blast
    from new_calls_line [OF c(1) pu(2)] new_calls_line [OF c(2) pm(2)] c(3)
    have "primitives (new_calls g (Restore (gal stm))) =
            map (reflect_call ?a) (primitives (new_calls g (Restore (gal stu))))"
      by simp
    with Inr m show ?thesis by (simp add: drawSingleLineText_def)
  qed
qed

lemma example_text_size:
  "computeTextLineSize example_font example_gal (utf8 ''~A'') = Inr (VECTOR2D 11 10)"
  by (simp add: line_eval example_font_loaded example_font_A example_gal_def GetEnd_def)

lemma example_mirrored_line:
  "map_sum id (\<lambda>g'. primitives (new_calls example_gal g'))
     (drawSingleLineText example_font (utf8 ''~A'') (example_gal\<lparr>textMirrored := True\<rparr>)) =
   Inr [DrawLineCall (VECTOR2D (167 / 20) (- (66 / 5))) (VECTOR2D 0 (- (66 / 5))),
        DrawPolylineCall [VECTOR2D 10 0, VECTOR2D 6 (- 10), VECTOR2D 2 0],
        DrawPolylineCall [VECTOR2D 8 (- 5), VECTOR2D 4 (- 5)]]"
  by (simp add: line_eval example_font_loaded example_font_A example_gal_def GetEnd_def
      char_calls_def glyph_point_def new_calls_def primitives_def
      computeOverbarVerticalPosition_def ComputeOverbarVerticalPosition_def
      OVERBAR_POSITION_FACTOR_def ITALIC_TILT_def)

theorem mirrored_rendering_witness:
  "map_sum id (\<lambda>g'. map (reflect_call 10) (primitives (new_calls example_gal g')))
     (drawSingleLineText example_font (utf8 ''~A'') (example_gal\<lparr>textMirrored := False\<rparr>)) =
   Inr [DrawLineCall (VECTOR2D (167 / 20) (- (66 / 5))) (VECTOR2D 0 (- (66 / 5))),
        DrawPolylineCall [VECTOR2D 10 0, VECTOR2D 6 (- 10), VECTOR2D 2 0],
        DrawPolylineCall [VECTOR2D 8 (- 5), VECTOR2D 4 (- 5)]]"
  using mirrored_rendering [OF example_text_size] example_mirrored_line
  by (simp add: example_gal_def)

subsection \<open>What a line of text draws\<close>

lemma limits_loop_glyphs:
  "font_loaded F \<Longrightarrow>
   \<exists>ls'. limits_loop F aTopLimit aBottomLimit aText ls = Inr ls' \<and>
     result_x ls' =
       result_x ls + (\<Sum>p\<leftarrow>line_glyphs aText ov. vx (GetEnd (glyph_box F (snd p))))"
proof (induction F aTopLimit aBottomLimit aText ls arbitrary: ov rule: limits_loop.induct)
  case (1 F aTopLimit aBottomLimit ls)
  then show ?case by simp
next
  case (2 F aTopLimit aBottomLimit ch rest ls)
  note fl = \<open>font_loaded F\<close>
  show ?case
  proof (cases "ch = tilde")
    case True
    show ?thesis
    proof (cases rest)
      case Nil
      with True show ?thesis by simp
    next
      case (Cons ch' rest')
      from limits_char_advance [OF fl, of aTopLimit aBottomLimit ch' ls]
      obtain ls1 where l: "limits_char F aTopLimit aBottomLimit ch' ls = Inr ls1"
        and r1: "result_x ls1 = result_x ls + vx (GetEnd (glyph_box F ch'))"
        by blast
      from "2.IH"(1) [OF True Cons l fl, of "\<not> ov"] "2.IH"(1) [OF True Cons l fl, of ov]
      show ?thesis using True Cons l r1 by auto
    qed
  next
    case False
    from limits_char_advance [OF fl, of aTopLimit aBottomLimit ch ls]
    obtain ls1 where l: "limits_char F aTopLimit aBottomLimit ch ls = Inr ls1"
      and r1: "result_x ls1 = result_x ls + vx (GetEnd (glyph_box F ch))"
      by blast
    from "2.IH"(2) [OF False l fl, of ov]
    show ?thesis using False l r1 by auto
  qed
qed

lemma computeTextLineSize_loaded:
  "font_loaded F \<Longrightarrow> computeTextLineSize F g aText = Inr (line_size F g aText)"
  using limits_loop_glyphs [of F False False aText "\<lparr>result_x = 0, ymax = 0, ymin = 0\<rparr>" False]
  by (auto simp: computeTextLineSize_def ComputeStringBoundaryLimits_def Let_def line_size_def)

lemma char_calls_calls [simp]:
  "char_calls (g\<lparr>calls := cs\<rparr>) = char_calls g"
  by (rule ext)+ (simp add: char_calls_def)

lemma glyph_calls_calls [simp]:
  "glyph_calls F (g\<lparr>calls := cs\<rparr>) gs icomp ps lho xo = glyph_calls F g gs icomp ps lho xo"
  by (induction ps arbitrary: lho xo) simp_all

lemma draw_loop_glyphs:
  "font_loaded F \<Longrightarrow>
   \<exists>st'. draw_loop F gs icomp aText st = Inr st' \<and>
     gal st' = (gal st)\<lparr>calls := calls (gal st) @
       glyph_calls F (gal st) gs icomp (line_glyphs aText (overbar st)) (last_had_overbar st)
         (xOffset st)\<rparr>"
proof (induction F gs icomp aText st rule: draw_loop.induct)
  case (1 F gs icomp st)
  then show ?case by simp
next
  case (2 F gs icomp ch rest st)
  note fl = \<open>font_loaded F\<close>
  note dc = draw_char_loaded [OF fl]
  show ?case
  proof (cases "ch = tilde")
    case True
    show ?thesis
    proof (cases rest)
      case Nil
      with True show ?thesis by simp
    next
      case (Cons ch' rest')
      from "2.IH"(1) [OF True Cons dc fl]
      show ?thesis using True Cons by (auto simp: dc)
    qed
  next
    case False
    from "2.IH"(2) [OF False dc fl]
    show ?thesis using False by (auto simp: dc)
  qed
qed

lemma justify_horizontal_eq:
  "justify_horizontal ts g = g\<lparr>calls := calls g @ justify_calls g ts\<rparr>"
  by (cases "horizontalJustify g")
     (simp_all add: justify_horizontal_def justify_calls_def gal_ops)

lemma justify_calls_calls [simp]: "justify_calls (g\<lparr>calls := cs\<rparr>) ts = justify_calls g ts"
  by (simp add: justify_calls_def)

lemma drawSingleLineText_loaded:
  assumes "font_loaded F"
  shows "drawSingleLineText F aText g = Inr (g\<lparr>calls := calls g @ line_calls F g aText\<rparr>)"
proof -
  let ?ts = "line_size F g aText"
  let ?g3 = "justify_horizontal ?ts (Save (Translate (VECTOR2D (lineWidth g / 2) 0) g))"
  let ?st0 = "\<lparr>overbar = False, last_had_overbar = False, xOffset = draw_xOffset g ?ts,
               gal = ?g3\<rparr>"
  have g3: "?g3 = g\<lparr>calls := calls g @
      [TranslateCall (VECTOR2D (lineWidth g / 2) 0), SaveCall] @ justify_calls g ?ts\<rparr>"
    by (simp add: justify_horizontal_eq) (simp add: gal_ops)
  from draw_loop_glyphs [OF assms, of "draw_glyphSize g" "draw_overbar_italic_comp g" aText ?st0]
  obtain st' where d: "draw_loop F (draw_glyphSize g) (draw_overbar_italic_comp g) aText ?st0
      = Inr st'"
    and c: "gal st' = ?g3\<lparr>calls := calls ?g3 @
       glyph_calls F ?g3 (draw_glyphSize g) (draw_overbar_italic_comp g)
         (line_glyphs aText False) False (draw_xOffset g ?ts)\<rparr>"
    by auto
  from d have "drawSingleLineText_locals F aText g = Inr st'"
    by (simp add: drawSingleLineText_locals_def computeTextLineSize_loaded [OF assms] Let_def)
  then have "drawSingleLineText F aText g = Inr (Restore (gal st'))"
    by (simp add: drawSingleLineText_def)
  also have "Restore (gal st') = g\<lparr>calls := calls g @ line_calls F g aText\<rparr>"
    unfolding c by (subst (1 2 3) g3) (simp add: line_calls_def gal_ops)
  finally show ?thesis .
qed

lemma primitives_Nil [simp]: "primitives [] = []"
  by (simp add: primitives_def)

lemma primitives_Cons [simp]:
  "primitives (c # cs) = (if is_primitive c then c # primitives cs else primitives cs)"
  by (simp add: primitives_def)

lemma primitives_justify_calls [simp]: "primitives (justify_calls g ts) = []"
  by (cases "horizontalJustify g")
     (simp_all add: justify_calls_def justify_horizontal_def gal_ops)

lemma primitives_glyph_calls [simp]:
  "primitives (glyph_calls F g gs icomp ps lho xo) = glyph_calls F g gs icomp ps lho xo"
  by (induction ps arbitrary: lho xo) simp_all

lemma primitives_line_calls:
  "primitives (line_calls F g aText) =
     glyph_calls F g (draw_glyphSize g) (draw_overbar_italic_comp g) (line_glyphs aText False)
       False (draw_xOffset g (line_size F g aText))"
  by (simp add: line_calls_def)

lemma new_calls_append [simp]: "new_calls g (g\<lparr>calls := calls g @ cs\<rparr>) = cs"
  by (simp add: new_calls_def)

lemma char_calls_plain:
  "char_calls g (draw_glyphSize g) icomp False lho xo (m_glyphs F ! nat (glyph_index F ch))
     (glyph_box F ch) = glyph_strokes F g ch xo"
  by (simp add: char_calls_def glyph_strokes_def)

lemma char_calls_overbar:
  "char_calls g (draw_glyphSize g) (draw_overbar_italic_comp g) True lho xo
     (m_glyphs F ! nat (glyph_index F ch)) (glyph_box F ch) =
   overbar_segment F g ch xo (\<not> lho) # glyph_strokes F g ch xo"
  by (simp add: char_calls_def glyph_strokes_def overbar_segment_def advance_def glyph_box_def)

lemma advance_glyph_box:
  "vx (draw_glyphSize g) * vx (GetEnd (glyph_box F ch)) = advance F g ch"
  by (simp add: advance_def glyph_box_def)

lemmas text_eval = utf8_def tilde_def char_calls_plain char_calls_overbar advance_glyph_box
  Let_def



text \<open>
  The claim as it stands has \<open>~~ABC\<close> draw what \<open>ABC\<close> draws. The doubled tilde is drawn
  as a tilde: in the example font the text \<open>~~ABC\<close> takes five strokes and \<open>ABC\<close> four.
\<close>

lemmas example_eval = example_font_A example_font_B example_font_C example_font_tilde
  example_gal_def utf8_def tilde_def char_calls_def glyph_point_def GetEnd_def
  draw_glyphSize_def draw_xOffset_def draw_overbar_italic_comp_def
  computeOverbarVerticalPosition_def ComputeOverbarVerticalPosition_def
  OVERBAR_POSITION_FACTOR_def ITALIC_TILT_def





subsection \<open>Drawing a text\<close>

lemma draw_lines_single:
  "line_feed \<notin> set aText \<Longrightarrow> draw_lines F lineHeight aText g = drawSingleLineText F aText g"
  by (subst draw_lines.simps) simp

lemma draw_lines_feed:
  "line_feed \<notin> set l \<Longrightarrow>
   draw_lines F lineHeight (l @ line_feed # rest) g =
     (case drawSingleLineText F l g of
        Inl e \<Rightarrow> Inl e
      | Inr g' \<Rightarrow> draw_lines F lineHeight rest (Translate (VECTOR2D 0 (real_of_int lineHeight)) g'))"
proof -
  assume a: "line_feed \<notin> set l"
  then have t: "takeWhile (\<lambda>c. c \<noteq> line_feed) (l @ line_feed # rest) = l"
    by (induction l) auto
  from a have d: "tl (dropWhile (\<lambda>c. c \<noteq> line_feed) (l @ line_feed # rest)) = rest"
    by (induction l) auto
  show ?thesis
    by (subst draw_lines.simps) (simp add: t d cong: sum.case_cong)
qed

lemma Draw_start:
  "aText \<noteq> [] \<Longrightarrow>
   Draw rnd KiROUND linesCount F aText aPosition aRotationAngle g =
     (case draw_lines F (getInterline rnd KiROUND g) aText
             ((drawing_gal g)\<lparr>calls := calls g @
                draw_prefix rnd KiROUND linesCount aText aPosition aRotationAngle g\<rparr>) of
        Inl e \<Rightarrow> Inl e
      | Inr g8 \<Rightarrow> Inr (Restore g8))"
  by (cases "verticalJustify g")
     (simp_all add: Draw_def Let_def drawing_gal_def draw_prefix_def justify_vertical_first_def
       justify_vertical_lines_def getInterline_def gal_ops)

lemma line_attrs_calls [simp]:
  "line_size F (g\<lparr>calls := cs\<rparr>) aText = line_size F g aText"
  "draw_glyphSize (g\<lparr>calls := cs\<rparr>) = draw_glyphSize g"
  "draw_overbar_italic_comp (g\<lparr>calls := cs\<rparr>) = draw_overbar_italic_comp g"
  "draw_xOffset (g\<lparr>calls := cs\<rparr>) ts = draw_xOffset g ts"
  by (simp_all add: line_size_def draw_glyphSize_def draw_overbar_italic_comp_def
      draw_xOffset_def)

lemma line_calls_calls [simp]: "line_calls F (g\<lparr>calls := cs\<rparr>) aText = line_calls F g aText"
  by (simp add: line_calls_def)

lemma new_calls_eq: "calls g' = calls g @ cs \<Longrightarrow> new_calls g g' = cs"
  by (simp add: new_calls_def)

lemma primitives_draw_prefix [simp]:
  "primitives (draw_prefix rnd KiROUND linesCount aText aPosition aRotationAngle g) = []"
  by (cases "verticalJustify g")
     (simp_all add: draw_prefix_def justify_vertical_first_def justify_vertical_lines_def
       gal_ops)

lemma Draw_single_line:
  assumes "font_loaded F" and "aText \<noteq> []" and "line_feed \<notin> set aText"
  shows "\<exists>g'. Draw rnd KiROUND linesCount F aText aPosition aRotationAngle g = Inr g' \<and>
           new_calls g g' =
             draw_prefix rnd KiROUND linesCount aText aPosition aRotationAngle g @
             line_calls F (drawing_gal g) aText @ [RestoreCall]"
  by (simp add: Draw_start [OF assms(2)] draw_lines_single [OF assms(3)]
      drawSingleLineText_loaded [OF assms(1)] new_calls_eq gal_ops drawing_gal_def)

lemma drawing_gal_attrs:
  "glyph_point (drawing_gal g) = glyph_point g"
  "draw_glyphSize (drawing_gal g) = draw_glyphSize g"
  "glyphSize (drawing_gal g) = glyphSize g"
  "textMirrored (drawing_gal g) = textMirrored g"
  "fontItalic (drawing_gal g) = fontItalic g"
  "horizontalJustify (drawing_gal g) = horizontalJustify g"
  by (rule ext)+ (simp_all add: drawing_gal_def draw_glyphSize_def glyph_point_def Let_def)

lemma glyph_strokes_drawing_gal:
  "glyph_strokes F (drawing_gal g) = glyph_strokes F g"
  by (rule ext)+ (simp add: glyph_strokes_def drawing_gal_attrs)

lemma advance_drawing_gal: "advance F (drawing_gal g) = advance F g"
  by (rule ext) (simp add: advance_def drawing_gal_attrs)

text \<open>
  C7. In a loaded font and with glyphs of size (10, 10), \<open>Draw\<close> of the text \<open>~A~\<close> at (0, 0)
  with rotation 0 draws the strokes of the glyph of A and, before them, one segment of the
  overbar. The segment lies \<open>10 * 1.22 + thickness\<close> above the base line, the thickness
  being the line width (times \<open>BOLD_FACTOR\<close> for a bold font), and ends where the advance of
  the glyph ends. It does not start where the advance starts: it starts
  \<open>(10 * 1.22 + thickness) * ITALIC_TILT\<close> within it, in upright text as in italic text. The
  indent is added to the first segment of an overbar with no test for an italic font, while
  the comment on it speaks of the beginning of an italicized section. In upright text the
  segment that the claim describes, one that spans the advance of the glyph, is what the
  code misses.
\<close>

theorem overbar_scenario:
  assumes "font_loaded F" and "glyphSize g = VECTOR2D 10 10"
  shows "\<exists>g'.
           Draw rnd KiROUND linesCount F (utf8 ''~A~'') (VECTOR2D 0 0) 0 g = Inr g' \<and>
           (let thickness = (if fontBold g then lineWidth g * BOLD_FACTOR else lineWidth g);
                h = 10 * 1.22 + thickness;
                x0 = (if textMirrored g
                      then (if fontItalic g then 10 * ITALIC_TILT else 0) -
                           advance F g (of_char CHR ''A'')
                      else 0);
                indent = (if textMirrored g then - (h * ITALIC_TILT) else h * ITALIC_TILT)
            in primitives (new_calls g g') =
                 DrawLineCall (VECTOR2D (x0 + indent) (- h))
                   (VECTOR2D (x0 + advance F g (of_char CHR ''A'')) (- h)) #
                 glyph_strokes F g (of_char CHR ''A'') x0)"
proof -
  let ?t = "utf8 ''~A~''"
  let ?gd = "drawing_gal g"
  have ne: "?t \<noteq> []" and nf: "line_feed \<notin> set ?t"
    by (simp_all add: utf8_def line_feed_def)
  from Draw_single_line [OF assms(1) ne nf, of rnd KiROUND linesCount "VECTOR2D 0 0" 0 g]
  obtain g' where d: "Draw rnd KiROUND linesCount F ?t (VECTOR2D 0 0) 0 g = Inr g'"
    and c: "new_calls g g' =
             draw_prefix rnd KiROUND linesCount ?t (VECTOR2D 0 0) 0 g @ line_calls F ?gd ?t @
             [RestoreCall]"
    by blast
  let ?x0 = "draw_xOffset ?gd (line_size F ?gd ?t)"
  have p: "primitives (new_calls g g') =
             overbar_segment F ?gd (of_char CHR ''A'') ?x0 True #
             glyph_strokes F ?gd (of_char CHR ''A'') ?x0"
    unfolding c by (simp add: primitives_line_calls) (simp add: text_eval)
  have x0: "?x0 = (if textMirrored g
                      then (if fontItalic g then 10 * ITALIC_TILT else 0) -
                           advance F g (of_char CHR ''A'')
                      else 0)"
    using assms(2)
    by (simp add: draw_xOffset_def line_size_def utf8_def tilde_def drawing_gal_def
        advance_def draw_glyphSize_def glyph_box_def)
  have h: "computeOverbarVerticalPosition ?gd =
             10 * 1.22 + (if fontBold g then lineWidth g * BOLD_FACTOR else lineWidth g)"
    using assms(2)
    by (simp add: computeOverbarVerticalPosition_def ComputeOverbarVerticalPosition_def
        drawing_gal_def OVERBAR_POSITION_FACTOR_def)
  note m = drawing_gal_attrs glyph_strokes_drawing_gal advance_drawing_gal
  show ?thesis
    apply (rule exI [of _ g'])
    using d p
    apply (simp add: Let_def overbar_segment_def draw_overbar_italic_comp_def h m)
    apply (simp add: x0)
    done
qed

text \<open>
  The scenario in upright text, with lines of width 1, in the example font: the advance of
  the glyph of A runs from 0 to 10, and the segment of the overbar from 33/20 to 10.
\<close>

theorem overbar_scenario_witness:
  "advance example_font example_gal (of_char CHR ''A'') = 10 \<and>
   (\<exists>g'. Draw example_rnd example_KiROUND example_linesCount example_font (utf8 ''~A~'')
            (VECTOR2D 0 0) 0 example_gal = Inr g' \<and>
      primitives (new_calls example_gal g') =
        [DrawLineCall (VECTOR2D (33 / 20) (- (66 / 5))) (VECTOR2D 10 (- (66 / 5))),
         DrawPolylineCall [VECTOR2D 0 0, VECTOR2D 4 (- 10), VECTOR2D 8 0],
         DrawPolylineCall [VECTOR2D 2 (- 5), VECTOR2D 6 (- 5)]])"
proof -
  have gs: "glyphSize example_gal = VECTOR2D 10 10" by (simp add: example_gal_def)
  have a: "advance example_font example_gal (of_char CHR ''A'') = 10"
    by (simp add: advance_glyph_box [symmetric] example_eval)
  from overbar_scenario [OF example_font_loaded gs,
      of example_rnd example_KiROUND example_linesCount]
  obtain g' where
    d: "Draw example_rnd example_KiROUND example_linesCount example_font (utf8 ''~A~'')
          (VECTOR2D 0 0) 0 example_gal = Inr g'"
    and p: "primitives (new_calls example_gal g') =
              DrawLineCall (VECTOR2D ((10 * 1.22 + 1) * ITALIC_TILT) (- (10 * 1.22 + 1)))
                (VECTOR2D (advance example_font example_gal (of_char CHR ''A''))
                  (- (10 * 1.22 + 1))) #
              glyph_strokes example_font example_gal (of_char CHR ''A'') 0"
    by (auto simp: Let_def example_gal_def)
  from p have "primitives (new_calls example_gal g') =
       [DrawLineCall (VECTOR2D (33 / 20) (- (66 / 5))) (VECTOR2D 10 (- (66 / 5))),
        DrawPolylineCall [VECTOR2D 0 0, VECTOR2D 4 (- 10), VECTOR2D 8 0],
        DrawPolylineCall [VECTOR2D 2 (- 5), VECTOR2D 6 (- 5)]]"
    by (simp add: glyph_strokes_def advance_glyph_box [symmetric] example_eval)
  with d a show ?thesis by blast
qed

subsection \<open>Lines of a text\<close>

lemma origins_primitives:
  "\<forall>c\<in>set ps. is_primitive c \<Longrightarrow>
   primitive_origins cur stack (ps @ cs) = replicate (length ps) cur @ primitive_origins cur stack cs"
proof (induction ps)
  case Nil
  then show ?case by simp
next
  case (Cons c ps)
  then show ?case by (cases c) simp_all
qed

lemma glyph_calls_primitive: "\<forall>c\<in>set (glyph_calls F g gs icomp ps lho xo). is_primitive c"
  using primitives_glyph_calls [of F g gs icomp ps lho xo]
  by (simp add: primitives_def filter_id_conv)

lemma justify_calls_cases:
  "justify_calls g ts = [] \<or> (\<exists>a. justify_calls g ts = [TranslateCall (VECTOR2D a 0)])"
  by (cases "horizontalJustify g")
     (simp_all add: justify_calls_def justify_horizontal_def gal_ops)

lemma origins_line:
  "map vy (primitive_origins cur stack (line_calls F g aText @ cs)) =
     replicate (length (glyph_calls F g (draw_glyphSize g) (draw_overbar_italic_comp g)
                  (line_glyphs aText False) False (draw_xOffset g (line_size F g aText))))
       (vy cur) @
     map vy (primitive_origins (VECTOR2D (vx cur + lineWidth g / 2) (vy cur)) stack cs)"
proof -
  let ?gc = "glyph_calls F g (draw_glyphSize g) (draw_overbar_italic_comp g)
               (line_glyphs aText False) False (draw_xOffset g (line_size F g aText))"
  let ?c1 = "VECTOR2D (vx cur + lineWidth g / 2) (vy cur)"
  have inner: "map vy (primitive_origins c2 (?c1 # stack) (?gc @ RestoreCall # cs)) =
                 replicate (length ?gc) (vy c2) @ map vy (primitive_origins ?c1 stack cs)" for c2
    by (simp add: origins_primitives [OF glyph_calls_primitive])
  from justify_calls_cases [of g "line_size F g aText"] show ?thesis
  proof
    assume "justify_calls g (line_size F g aText) = []"
    then show ?thesis using inner [of ?c1] by (simp add: line_calls_def)
  next
    assume "\<exists>a. justify_calls g (line_size F g aText) = [TranslateCall (VECTOR2D a 0)]"
    then obtain a where "justify_calls g (line_size F g aText) = [TranslateCall (VECTOR2D a 0)]"
      by blast
    then show ?thesis
      using inner [of "VECTOR2D (vx cur + lineWidth g / 2 + a) (vy cur)"]
      by (simp add: line_calls_def)
  qed
qed

lemma int_div_double: "int_div (- 2 * k) 2 = - k"
  by (cases "k < 0") (simp_all add: int_div_def sgn_if)

lemma wrap32_id: "- (2 ^ 31) \<le> i \<Longrightarrow> i < 2 ^ 31 \<Longrightarrow> wrap32 i = i"
  by (simp add: wrap32_def)

lemma Draw_three_lines:
  assumes "font_loaded F" and "line_feed \<notin> set l1" and "line_feed \<notin> set l2"
    and "line_feed \<notin> set l3"
  shows "\<exists>g'. Draw rnd KiROUND linesCount F (l1 @ line_feed # l2 @ line_feed # l3) aPosition
                  aRotationAngle g = Inr g' \<and>
           new_calls g g' =
             draw_prefix rnd KiROUND linesCount (l1 @ line_feed # l2 @ line_feed # l3) aPosition
               aRotationAngle g @
             line_calls F (drawing_gal g) l1 @
             [TranslateCall (VECTOR2D 0 (real_of_int (getInterline rnd KiROUND g)))] @
             line_calls F (drawing_gal g) l2 @
             [TranslateCall (VECTOR2D 0 (real_of_int (getInterline rnd KiROUND g)))] @
             line_calls F (drawing_gal g) l3 @ [RestoreCall]"
proof -
  have ne: "l1 @ line_feed # l2 @ line_feed # l3 \<noteq> []" by simp
  show ?thesis
    by (simp add: Draw_start [OF ne] draw_lines_feed [OF assms(2)] draw_lines_feed [OF assms(3)]
        draw_lines_single [OF assms(4)] drawSingleLineText_loaded [OF assms(1)] new_calls_eq
        gal_ops drawing_gal_def)
qed

lemma line_strokes_length:
  "of_char c \<noteq> tilde \<Longrightarrow>
   length (glyph_calls F g gs icomp (line_glyphs (utf8 [c]) False) False xo) =
     length (m_glyphs F ! nat (glyph_index F (of_char c)))"
  by (simp add: utf8_def char_calls_def)

text \<open>
  The frames in which the strokes of three lines of one letter each are drawn, from a frame
  at \<open>y\<close>, when the vertical justification has translated by \<open>a\<close> and then by \<open>b\<close> and
  every line feed translates by \<open>lh\<close>.
\<close>

lemma origins_three_lines:
  assumes "of_char c1 \<noteq> tilde" and "of_char c2 \<noteq> tilde" and "of_char c3 \<noteq> tilde"
    and "bold = [] \<or> (\<exists>w. bold = [SetLineWidthCall w])"
  shows "map vy (primitive_origins (VECTOR2D 0 y) stack
           (TranslateCall (VECTOR2D 0 a) # TranslateCall (VECTOR2D 0 b) #
            ([SetIsStrokeCall True] @ bold @
             line_calls F g (utf8 [c1]) @ [TranslateCall (VECTOR2D 0 lh)] @
             line_calls F g (utf8 [c2]) @ [TranslateCall (VECTOR2D 0 lh)] @
             line_calls F g (utf8 [c3]) @ [RestoreCall]))) =
         replicate (length (m_glyphs F ! nat (glyph_index F (of_char c1)))) (y + a + b) @
         replicate (length (m_glyphs F ! nat (glyph_index F (of_char c2)))) (y + a + b + lh) @
         replicate (length (m_glyphs F ! nat (glyph_index F (of_char c3))))
           (y + a + b + lh + lh)"
  using assms
  by (auto simp add: origins_line line_strokes_length split: list.splits
      simp del: append_assoc simp add: append_assoc [symmetric])

text \<open>
  C6, as amended. In a loaded font, for the text of the three lines A, B and C, counted as
  three lines, and with vertical justification to the centre, \<open>Draw\<close> saves the state, moves
  to the position, rotates, and then translates by half the glyph height and back by one
  line height. Every stroke of the first line is drawn with the frame one line height above
  that of the second line, whose base line lies half a glyph height below the anchor, so
  that the line is centred on it; every stroke of the third line is drawn one line height
  below. The line height is what \<open>KiROUND\<close> makes of the \<open>double\<close> sum
  \<open>glyphSize.y * 1.5 + lineWidth\<close>. All this holds when the line height is above \<open>- 2^30\<close>
  and at most \<open>2^30\<close>, so that twice the line height, negated, is an \<open>int\<close>. (Along x every
  line moves the frame by half the line width, which the claim does not speak of.)
\<close>

theorem three_lines_centered:
  assumes "font_loaded F" and "verticalJustify g = GR_TEXT_VJUSTIFY_CENTER"
    and "linesCount (utf8 ''A'' @ line_feed # utf8 ''B'' @ line_feed # utf8 ''C'') = 3"
    and "- (2 ^ 30) < KiROUND (rnd (rnd (vy (glyphSize g) * 1.5) + lineWidth g))"
    and "KiROUND (rnd (rnd (vy (glyphSize g) * 1.5) + lineWidth g)) \<le> 2 ^ 30"
  shows "\<exists>g' rest.
           Draw rnd KiROUND linesCount F
             (utf8 ''A'' @ line_feed # utf8 ''B'' @ line_feed # utf8 ''C'')
             aPosition aRotationAngle g = Inr g' \<and>
           (let lineHeight =
                  real_of_int (KiROUND (rnd (rnd (vy (glyphSize g) * 1.5) + lineWidth g)));
                half = vy (glyphSize g) / 2;
                after = TranslateCall (VECTOR2D 0 half) #
                        TranslateCall (VECTOR2D 0 (- lineHeight)) # rest
            in new_calls g g' =
                 [SaveCall, TranslateCall aPosition, RotateCall (- aRotationAngle)] @ after \<and>
               map vy (primitive_origins (VECTOR2D 0 0) [] after) =
                 replicate (length (m_glyphs F ! nat (glyph_index F (of_char CHR ''A''))))
                   (half - lineHeight) @
                 replicate (length (m_glyphs F ! nat (glyph_index F (of_char CHR ''B'')))) half @
                 replicate (length (m_glyphs F ! nat (glyph_index F (of_char CHR ''C''))))
                   (half + lineHeight))"
proof -
  let ?t = "utf8 ''A'' @ line_feed # utf8 ''B'' @ line_feed # utf8 ''C''"
  let ?gd = "drawing_gal g"
  let ?L = "KiROUND (rnd (rnd (vy (glyphSize g) * 1.5) + lineWidth g))"
  let ?lh = "real_of_int ?L"
  let ?half = "vy (glyphSize g) / 2"
  let ?bold = "if fontBold g then [SetLineWidthCall (lineWidth g * BOLD_FACTOR)] else []"
  let ?rest = "[SetIsStrokeCall True] @ ?bold @
     line_calls F ?gd (utf8 ''A'') @ [TranslateCall (VECTOR2D 0 ?lh)] @
     line_calls F ?gd (utf8 ''B'') @ [TranslateCall (VECTOR2D 0 ?lh)] @
     line_calls F ?gd (utf8 ''C'') @ [RestoreCall]"
  have nf: "line_feed \<notin> set (utf8 ''A'')" "line_feed \<notin> set (utf8 ''B'')"
    "line_feed \<notin> set (utf8 ''C'')"
    by (simp_all add: utf8_def line_feed_def)
  from Draw_three_lines [OF assms(1) nf, of rnd KiROUND linesCount aPosition aRotationAngle g]
  obtain g' where d: "Draw rnd KiROUND linesCount F ?t aPosition aRotationAngle g = Inr g'"
    and c: "new_calls g g' =
             draw_prefix rnd KiROUND linesCount ?t aPosition aRotationAngle g @
             line_calls F ?gd (utf8 ''A'') @
             [TranslateCall (VECTOR2D 0 (real_of_int (getInterline rnd KiROUND g)))] @
             line_calls F ?gd (utf8 ''B'') @
             [TranslateCall (VECTOR2D 0 (real_of_int (getInterline rnd KiROUND g)))] @
             line_calls F ?gd (utf8 ''C'') @ [RestoreCall]"
    by blast
  from assms(4,5) have "wrap32 ?L = ?L"
    by (intro wrap32_id) simp_all
  then have gi: "getInterline rnd KiROUND g = ?L"
    by (simp add: getInterline_def GetInterline_def INTERLINE_PITCH_RATIO_def)
  from assms(4,5) have "wrap32 (- 2 * ?L) = - 2 * ?L"
    by (intro wrap32_id) simp_all
  moreover have "wrap32 (- wrap32 (3 - 1)) = - 2"
    by (simp add: wrap32_def)
  ultimately have off: "int_div (wrap32 (wrap32 (- wrap32 (3 - 1)) * ?L)) 2 = - ?L"
    by (simp only: int_div_double)
  have pre: "draw_prefix rnd KiROUND linesCount ?t aPosition aRotationAngle g =
      [SaveCall, TranslateCall aPosition, RotateCall (- aRotationAngle),
       TranslateCall (VECTOR2D 0 ?half), TranslateCall (VECTOR2D 0 (- ?lh)),
       SetIsStrokeCall True] @ ?bold"
    using assms(2,3) off
    by (simp add: draw_prefix_def justify_vertical_first_def justify_vertical_lines_def gal_ops
        gi)
  have calls: "new_calls g g' =
      [SaveCall, TranslateCall aPosition, RotateCall (- aRotationAngle)] @
      (TranslateCall (VECTOR2D 0 ?half) # TranslateCall (VECTOR2D 0 (- ?lh)) # ?rest)"
    unfolding c pre gi by simp
  have origins: "map vy (primitive_origins (VECTOR2D 0 0) []
                   (TranslateCall (VECTOR2D 0 ?half) # TranslateCall (VECTOR2D 0 (- ?lh)) #
                    ?rest)) =
      replicate (length (m_glyphs F ! nat (glyph_index F (of_char CHR ''A'')))) (?half - ?lh) @
      replicate (length (m_glyphs F ! nat (glyph_index F (of_char CHR ''B'')))) ?half @
      replicate (length (m_glyphs F ! nat (glyph_index F (of_char CHR ''C'')))) (?half + ?lh)"
    using origins_three_lines [of "CHR ''A''" "CHR ''B''" "CHR ''C''" ?bold 0 "[]" ?half
        "- ?lh" F ?gd ?lh]
    by (simp add: tilde_def)
  show ?thesis
    apply (rule exI [of _ g'])
    apply (rule exI [of _ ?rest])
    using d calls origins
    apply (simp only: Let_def)
    done
qed

lemma example_lines_count:
  "example_linesCount (utf8 ''A'' @ line_feed # utf8 ''B'' @ line_feed # utf8 ''C'') = 3"
  by (simp add: example_linesCount_def utf8_def line_feed_def)

text \<open>
  The claim as it stands fails for tall glyphs. With glyphs of height \<open>10^9\<close> and lines of
  width 0 the line height is 1500000000. Twice that, negated, is no \<open>int\<close>: the product is
  cut to 1294967296, and \<open>Draw\<close> translates by 647483648 where the claim has one line height
  back. The second line is drawn at 2647483648 from the anchor and not at 500000000, half
  the glyph height.
\<close>

theorem three_lines_overflow:
  "map_sum id
     (\<lambda>g'. map vy (primitive_origins (VECTOR2D 0 0) []
              (new_calls (example_gal\<lparr>glyphSize := VECTOR2D 10 1000000000, lineWidth := 0\<rparr>)
                 g')))
     (Draw example_rnd example_KiROUND example_linesCount example_font
        (utf8 ''A'' @ line_feed # utf8 ''B'' @ line_feed # utf8 ''C'') (VECTOR2D 0 0) 0
        (example_gal\<lparr>glyphSize := VECTOR2D 10 1000000000, lineWidth := 0\<rparr>)) =
   Inr [1147483648, 1147483648, 2647483648, 4147483648]"
proof -
  let ?g = "example_gal\<lparr>glyphSize := VECTOR2D 10 1000000000, lineWidth := 0\<rparr>"
  let ?t = "utf8 ''A'' @ line_feed # utf8 ''B'' @ line_feed # utf8 ''C''"
  have nf: "line_feed \<notin> set (utf8 ''A'')" "line_feed \<notin> set (utf8 ''B'')"
    "line_feed \<notin> set (utf8 ''C'')"
    by (simp_all add: utf8_def line_feed_def)
  have gi: "getInterline example_rnd example_KiROUND ?g = 1500000000"
    by (simp add: getInterline_def GetInterline_def INTERLINE_PITCH_RATIO_def example_gal_def
        example_rnd_def example_KiROUND_def wrap32_def)
  have pre: "draw_prefix example_rnd example_KiROUND example_linesCount ?t (VECTOR2D 0 0) 0 ?g =
      [SaveCall, TranslateCall (VECTOR2D 0 0), RotateCall 0] @
      TranslateCall (VECTOR2D 0 500000000) # TranslateCall (VECTOR2D 0 647483648) #
      [SetIsStrokeCall True] @ []"
  proof -
    have jf: "justify_vertical_first (?g\<lparr>calls := []\<rparr>) =
                Translate (VECTOR2D 0 500000000) (?g\<lparr>calls := []\<rparr>)"
      by (simp add: justify_vertical_first_def example_gal_def)
    have jl: "justify_vertical_lines 3 1500000000 (Translate v (?g\<lparr>calls := []\<rparr>)) =
                Translate (VECTOR2D 0 647483648) (Translate v (?g\<lparr>calls := []\<rparr>))" for v
      by (simp add: justify_vertical_lines_def example_gal_def gal_ops wrap32_def int_div_def)
    show ?thesis
      by (simp add: draw_prefix_def gi example_lines_count jf jl)
         (simp add: gal_ops example_gal_def)
  qed
  from Draw_three_lines [OF example_font_loaded nf,
      of example_rnd example_KiROUND example_linesCount "VECTOR2D 0 0" 0 ?g]
  obtain g' where d: "Draw example_rnd example_KiROUND example_linesCount example_font ?t
      (VECTOR2D 0 0) 0 ?g = Inr g'"
    and c: "new_calls ?g g' =
             draw_prefix example_rnd example_KiROUND example_linesCount ?t (VECTOR2D 0 0) 0 ?g @
             line_calls example_font (drawing_gal ?g) (utf8 ''A'') @
             [TranslateCall (VECTOR2D 0
                (real_of_int (getInterline example_rnd example_KiROUND ?g)))] @
             line_calls example_font (drawing_gal ?g) (utf8 ''B'') @
             [TranslateCall (VECTOR2D 0
                (real_of_int (getInterline example_rnd example_KiROUND ?g)))] @
             line_calls example_font (drawing_gal ?g) (utf8 ''C'') @ [RestoreCall]"
    by blast
  have o: "map vy (primitive_origins (VECTOR2D 0 0) [VECTOR2D 0 0]
             (TranslateCall (VECTOR2D 0 500000000) # TranslateCall (VECTOR2D 0 647483648) #
              ([SetIsStrokeCall True] @ [] @
               line_calls example_font (drawing_gal ?g) (utf8 ''A'') @
               [TranslateCall (VECTOR2D 0 1500000000)] @
               line_calls example_font (drawing_gal ?g) (utf8 ''B'') @
               [TranslateCall (VECTOR2D 0 1500000000)] @
               line_calls example_font (drawing_gal ?g) (utf8 ''C'') @ [RestoreCall]))) =
           [1147483648, 1147483648, 2647483648, 4147483648]"
    using origins_three_lines [of "CHR ''A''" "CHR ''B''" "CHR ''C''" "[]" 0 "[VECTOR2D 0 0]"
        500000000 647483648 example_font "drawing_gal ?g" 1500000000]
    by (simp add: tilde_def example_font_A example_font_B example_font_C)
  have "map vy (primitive_origins (VECTOR2D 0 0) [] (new_calls ?g g')) =
          [1147483648, 1147483648, 2647483648, 4147483648]"
    unfolding c pre gi using o by simp
  with d show ?thesis by simp
qed

theorem three_lines_centered_witness:
  "\<exists>g' rest.
     Draw example_rnd example_KiROUND example_linesCount example_font
       (utf8 ''A'' @ line_feed # utf8 ''B'' @ line_feed # utf8 ''C'') (VECTOR2D 3 4) 0
       example_gal = Inr g' \<and>
     new_calls example_gal g' =
       [SaveCall, TranslateCall (VECTOR2D 3 4), RotateCall 0, TranslateCall (VECTOR2D 0 5),
        TranslateCall (VECTOR2D 0 (- 16))] @ rest \<and>
     map vy (primitive_origins (VECTOR2D 0 0) []
               (TranslateCall (VECTOR2D 0 5) # TranslateCall (VECTOR2D 0 (- 16)) # rest)) =
       [- 11, - 11, 5, 21]"
proof -
  have v: "verticalJustify example_gal = GR_TEXT_VJUSTIFY_CENTER"
    by (simp add: example_gal_def)
  have k: "example_KiROUND
             (example_rnd (example_rnd (vy (glyphSize example_gal) * 1.5) +
                lineWidth example_gal)) = 16"
    by (simp add: example_KiROUND_def example_rnd_def example_gal_def)
  have h: "vy (glyphSize example_gal) / 2 = 5"
    by (simp add: example_gal_def)
  have n: "length (m_glyphs example_font ! nat (glyph_index example_font (of_char CHR ''A''))) = 2"
    "length (m_glyphs example_font ! nat (glyph_index example_font (of_char CHR ''B''))) = 1"
    "length (m_glyphs example_font ! nat (glyph_index example_font (of_char CHR ''C''))) = 1"
    by (simp_all add: example_font_A example_font_B example_font_C)
  have lo: "- (2 ^ 30) < example_KiROUND
             (example_rnd (example_rnd (vy (glyphSize example_gal) * 1.5) +
                lineWidth example_gal))"
    and hi: "example_KiROUND
             (example_rnd (example_rnd (vy (glyphSize example_gal) * 1.5) +
                lineWidth example_gal)) \<le> 2 ^ 30"
    unfolding k by simp_all
  from three_lines_centered [where linesCount = example_linesCount
      and KiROUND = example_KiROUND and rnd = example_rnd and aPosition = "VECTOR2D 3 4"
      and aRotationAngle = 0, OF example_font_loaded v example_lines_count lo hi]
  show ?thesis
    unfolding Let_def k h n by (simp add: numeral_2_eq_2)
qed

subsection \<open>Rounding errors\<close>

text \<open>
  How the bounds grow: one more rounding for a sum of two values or for the product of a
  value with an exact factor, and from there for the two sums that the loops accumulate.
\<close>

lemma power_ge_1: "0 \<le> u \<Longrightarrow> 1 \<le> (1 + u) ^ k" for u :: real
  by (rule one_le_power) simp

lemma rounding_bound_nonneg:
  "0 \<le> u \<Longrightarrow> 0 \<le> \<eta> \<Longrightarrow> 0 \<le> m \<Longrightarrow> 0 \<le> a \<Longrightarrow> 0 \<le> rounding_bound u \<eta> k m a"
  using power_ge_1 [of u k] by (simp add: rounding_bound_def)

lemma rounding_bound_mono:
  assumes "0 \<le> u" and "0 \<le> \<eta>" and "k \<le> k'" and "0 \<le> m" and "m \<le> m'" and "0 \<le> a"
    and "a \<le> a'"
  shows "rounding_bound u \<eta> k m a \<le> rounding_bound u \<eta> k' m' a'"
proof -
  have p: "(1 + u) ^ k \<le> (1 + u) ^ k'"
    using assms(1,3) by (intro power_increasing) simp_all
  have p1: "1 \<le> (1 + u) ^ k" by (rule power_ge_1 [OF assms(1)])
  have "((1 + u) ^ k - 1) * m \<le> ((1 + u) ^ k' - 1) * m'"
    using p p1 assms by (intro mult_mono) simp_all
  moreover have "(1 + u) ^ k * a \<le> (1 + u) ^ k' * a'"
    using p p1 assms by (intro mult_mono) simp_all
  then have "(1 + u) ^ k * a * \<eta> \<le> (1 + u) ^ k' * a' * \<eta>"
    using assms(2) by (rule mult_right_mono)
  ultimately show ?thesis by (simp add: rounding_bound_def)
qed

lemma magnitude_bound_mono:
  assumes "0 \<le> u" and "0 \<le> \<eta>" and "k \<le> k'" and "0 \<le> m" and "m \<le> m'" and "0 \<le> a"
    and "a \<le> a'"
  shows "magnitude_bound u \<eta> k m a \<le> magnitude_bound u \<eta> k' m' a'"
proof -
  have p: "(1 + u) ^ k \<le> (1 + u) ^ k'"
    using assms(1,3) by (intro power_increasing) simp_all
  have p1: "1 \<le> (1 + u) ^ k" by (rule power_ge_1 [OF assms(1)])
  have "a * \<eta> \<le> a' * \<eta>" using assms by (intro mult_right_mono) simp_all
  then have "m + a * \<eta> \<le> m' + a' * \<eta>" using assms by simp
  moreover have "0 \<le> m + a * \<eta>" using assms by simp
  ultimately show ?thesis
    unfolding magnitude_bound_def using p p1 by (intro mult_mono) simp_all
qed

lemma approximates_exact:
  "0 \<le> u \<Longrightarrow> 0 \<le> \<eta> \<Longrightarrow> \<bar>x\<bar> \<le> m \<Longrightarrow> 0 \<le> a \<Longrightarrow> approximates u \<eta> k m a x x"
  using rounding_bound_nonneg [of u \<eta> m a k] by (simp add: approximates_def)

lemma approximates_weaken:
  assumes "approximates u \<eta> k m a xh x" and "0 \<le> u" and "0 \<le> \<eta>" and "k \<le> k'" and "m \<le> m'"
    and "0 \<le> a" and "a \<le> a'"
  shows "approximates u \<eta> k' m' a' xh x"
proof -
  from assms(1) have m: "\<bar>x\<bar> \<le> m" and e: "\<bar>xh - x\<bar> \<le> rounding_bound u \<eta> k m a"
    by (simp_all add: approximates_def)
  from m have "0 \<le> m" by simp
  from rounding_bound_mono [OF assms(2,3,4) this assms(5,6,7)] e m assms(5)
  show ?thesis by (simp add: approximates_def)
qed

lemma approximates_bound: "approximates u \<eta> k m a xh x \<Longrightarrow> \<bar>xh - x\<bar> \<le> rounding_bound u \<eta> k m a"
  by (simp add: approximates_def)

lemma approximates_round:
  assumes r: "rounds rnd u \<eta> \<Omega>"
    and z: "\<bar>z\<bar> \<le> m" "\<bar>zh - z\<bar> \<le> rounding_bound u \<eta> k m a" and a: "0 \<le> a"
    and om: "magnitude_bound u \<eta> (Suc k) m (a + 1) \<le> \<Omega>"
  shows "approximates u \<eta> (Suc k) m (a + 1) (rnd zh) z"
proof -
  from r have u: "0 \<le> u" and e: "0 \<le> \<eta>"
    and R: "\<And>x. \<bar>x\<bar> \<le> \<Omega> \<Longrightarrow> \<bar>rnd x - x\<bar> \<le> u * \<bar>x\<bar> + \<eta>"
    by (simp_all add: rounds_def)
  define P where "P = (1 + u) ^ k"
  define E where "E = (P - 1) * m + P * a * \<eta>"
  have P1: "1 \<le> P" unfolding P_def by (rule power_ge_1 [OF u])
  have m0: "0 \<le> m" using z(1) by simp
  have E: "\<bar>zh - z\<bar> \<le> E" using z(2) by (simp add: rounding_bound_def P_def E_def)
  have E0: "0 \<le> E" using E by simp
  have zh: "\<bar>zh\<bar> \<le> m + E" using z(1) E by simp
  have mE: "m + E = P * m + P * a * \<eta>" by (simp add: E_def algebra_simps)
  have om': "(1 + u) * P * (m + (a + 1) * \<eta>) \<le> \<Omega>"
    using om by (simp add: magnitude_bound_def P_def algebra_simps)
  have "0 \<le> u * P * m + u * P * a * \<eta> + (1 + u) * P * \<eta>"
    using u e a m0 P1 by simp
  then have "P * m + P * a * \<eta> \<le> (1 + u) * P * (m + (a + 1) * \<eta>)"
    by (simp add: algebra_simps)
  with zh mE om' have "\<bar>zh\<bar> \<le> \<Omega>" by simp
  from R [OF this] have "\<bar>rnd zh - zh\<bar> \<le> u * \<bar>zh\<bar> + \<eta>" .
  also have "u * \<bar>zh\<bar> \<le> u * (m + E)" using zh u by (rule mult_left_mono)
  finally have "\<bar>rnd zh - zh\<bar> \<le> u * (m + E) + \<eta>" by simp
  with E have "\<bar>rnd zh - z\<bar> \<le> u * (m + E) + \<eta> + E" by simp
  also have "u * (m + E) + \<eta> + E = ((1 + u) * P - 1) * m + (1 + u) * P * a * \<eta> + \<eta>"
    by (simp add: E_def algebra_simps)
  also have "\<dots> \<le> ((1 + u) * P - 1) * m + (1 + u) * P * (a + 1) * \<eta>"
  proof -
    have "1 \<le> (1 + u) * P" using u P1 by (simp add: algebra_simps add_increasing2)
    then have "\<eta> \<le> (1 + u) * P * \<eta>" using e by (simp add: mult_le_cancel_right1)
    then show ?thesis by (simp add: algebra_simps)
  qed
  finally have "\<bar>rnd zh - z\<bar> \<le> rounding_bound u \<eta> (Suc k) m (a + 1)"
    by (simp add: rounding_bound_def P_def algebra_simps)
  with z(1) show ?thesis by (simp add: approximates_def)
qed

lemma approximates_add:
  assumes r: "rounds rnd u \<eta> \<Omega>"
    and x: "approximates u \<eta> k m1 a1 xh x" and y: "approximates u \<eta> k m2 a2 yh y"
    and a: "0 \<le> a1" "0 \<le> a2"
    and om: "magnitude_bound u \<eta> (Suc k) (m1 + m2) (a1 + a2 + 1) \<le> \<Omega>"
  shows "approximates u \<eta> (Suc k) (m1 + m2) (a1 + a2 + 1) (rnd (xh + yh)) (x + y)"
proof -
  from x y have m: "\<bar>x\<bar> \<le> m1" "\<bar>y\<bar> \<le> m2"
    and e: "\<bar>xh - x\<bar> \<le> rounding_bound u \<eta> k m1 a1" "\<bar>yh - y\<bar> \<le> rounding_bound u \<eta> k m2 a2"
    by (simp_all add: approximates_def)
  have s: "rounding_bound u \<eta> k m1 a1 + rounding_bound u \<eta> k m2 a2 =
           rounding_bound u \<eta> k (m1 + m2) (a1 + a2)"
    by (simp add: rounding_bound_def algebra_simps)
  have "\<bar>x + y\<bar> \<le> m1 + m2" using m by simp
  moreover have "\<bar>xh + yh - (x + y)\<bar> \<le> rounding_bound u \<eta> k (m1 + m2) (a1 + a2)"
    using e unfolding s [symmetric] by simp
  ultimately show ?thesis
    using approximates_round [OF r, of "x + y" "m1 + m2" "xh + yh" k "a1 + a2"] a om by simp
qed

lemma approximates_mult:
  assumes r: "rounds rnd u \<eta> \<Omega>"
    and x: "approximates u \<eta> k m a xh x" and a: "0 \<le> a"
    and om: "magnitude_bound u \<eta> (Suc k) (\<bar>c\<bar> * m) (\<bar>c\<bar> * a + 1) \<le> \<Omega>"
  shows "approximates u \<eta> (Suc k) (\<bar>c\<bar> * m) (\<bar>c\<bar> * a + 1) (rnd (xh * c)) (x * c)"
proof -
  from x have m: "\<bar>x\<bar> \<le> m" and e: "\<bar>xh - x\<bar> \<le> rounding_bound u \<eta> k m a"
    by (simp_all add: approximates_def)
  have "\<bar>x * c\<bar> = \<bar>c\<bar> * \<bar>x\<bar>" by (simp add: abs_mult)
  also have "\<dots> \<le> \<bar>c\<bar> * m" using m by (intro mult_left_mono) simp_all
  finally have "\<bar>x * c\<bar> \<le> \<bar>c\<bar> * m" .
  moreover have "\<bar>xh * c - x * c\<bar> = \<bar>c\<bar> * \<bar>xh - x\<bar>"
    by (simp add: abs_mult [symmetric] algebra_simps)
  then have "\<bar>xh * c - x * c\<bar> \<le> \<bar>c\<bar> * rounding_bound u \<eta> k m a"
    using e by (simp add: mult_left_mono)
  then have "\<bar>xh * c - x * c\<bar> \<le> rounding_bound u \<eta> k (\<bar>c\<bar> * m) (\<bar>c\<bar> * a)"
    by (simp add: rounding_bound_def algebra_simps)
  ultimately show ?thesis
    using approximates_round [OF r, of "x * c" "\<bar>c\<bar> * m" "xh * c" k "\<bar>c\<bar> * a"] a om by simp
qed


lemma approximates_nonneg: "approximates u \<eta> k m a xh x \<Longrightarrow> 0 \<le> m"
  unfolding approximates_def by linarith

lemma rounds_nonneg: "rounds rnd u \<eta> \<Omega> \<Longrightarrow> 0 \<le> u" "rounds rnd u \<eta> \<Omega> \<Longrightarrow> 0 \<le> \<eta>"
  by (simp_all add: rounds_def)

lemma sum_abs_nonneg: "0 \<le> (\<Sum>w\<leftarrow>ws. \<bar>w\<bar>)" for ws :: "real list"
  by (induction ws) simp_all

lemma fold_add_approximates:
  assumes r: "rounds rnd u \<eta> \<Omega>"
  shows "approximates u \<eta> k m a xh x \<Longrightarrow> 0 \<le> a \<Longrightarrow>
         magnitude_bound u \<eta> (k + length ws) (m + (\<Sum>w\<leftarrow>ws. \<bar>w\<bar>)) (a + real (length ws)) \<le> \<Omega> \<Longrightarrow>
         approximates u \<eta> (k + length ws) (m + (\<Sum>w\<leftarrow>ws. \<bar>w\<bar>)) (a + real (length ws))
           (fold (\<lambda>w acc. rnd (acc + w)) ws xh) (x + sum_list ws)"
proof (induction ws arbitrary: k m a xh x)
  case Nil
  then show ?case by simp
next
  case (Cons w ws)
  note u = rounds_nonneg [OF r]
  from Cons.prems(1) have m0: "0 \<le> m" by (rule approximates_nonneg)
  have w: "approximates u \<eta> k \<bar>w\<bar> 0 w w" by (rule approximates_exact [OF u]) simp_all
  have "magnitude_bound u \<eta> (Suc k) (m + \<bar>w\<bar>) (a + 0 + 1) \<le>
        magnitude_bound u \<eta> (k + length (w # ws)) (m + (\<Sum>w\<leftarrow>w # ws. \<bar>w\<bar>))
          (a + real (length (w # ws)))"
    using m0 Cons.prems(2) sum_abs_nonneg [of ws]
    by (intro magnitude_bound_mono [OF u]) simp_all
  with Cons.prems(3) have om1: "magnitude_bound u \<eta> (Suc k) (m + \<bar>w\<bar>) (a + 0 + 1) \<le> \<Omega>"
    by simp
  from approximates_add [OF r Cons.prems(1) w Cons.prems(2) _ om1]
  have step: "approximates u \<eta> (Suc k) (m + \<bar>w\<bar>) (a + 1) (rnd (xh + w)) (x + w)" by simp
  have e: "Suc k + length ws = k + length (w # ws)"
    "m + \<bar>w\<bar> + (\<Sum>w\<leftarrow>ws. \<bar>w\<bar>) = m + (\<Sum>w\<leftarrow>w # ws. \<bar>w\<bar>)"
    "a + 1 + real (length ws) = a + real (length (w # ws))"
    "x + w + sum_list ws = x + sum_list (w # ws)"
    by simp_all
  from Cons.prems(2) have a1: "0 \<le> a + 1" by simp
  from Cons.IH [OF step a1] Cons.prems(3) show ?case
    unfolding e by simp
qed

lemma fold_pen_approximates:
  assumes r: "rounds rnd u \<eta> \<Omega>"
  shows "approximates u \<eta> k m a xh x \<Longrightarrow> 0 \<le> a \<Longrightarrow> 1 \<le> k \<Longrightarrow>
         magnitude_bound u \<eta> (k + length ws) (m + \<bar>c\<bar> * (\<Sum>w\<leftarrow>ws. \<bar>w\<bar>))
           (a + 2 * real (length ws)) \<le> \<Omega> \<Longrightarrow>
         approximates u \<eta> (k + length ws) (m + \<bar>c\<bar> * (\<Sum>w\<leftarrow>ws. \<bar>w\<bar>)) (a + 2 * real (length ws))
           (fold (\<lambda>w acc. rnd (acc + rnd (c * w))) ws xh) (x + c * sum_list ws)"
proof (induction ws arbitrary: k m a xh x)
  case Nil
  then show ?case by simp
next
  case (Cons w ws)
  note u = rounds_nonneg [OF r]
  from Cons.prems(1) have m0: "0 \<le> m" by (rule approximates_nonneg)
  have s0: "0 \<le> \<bar>c\<bar> * (\<Sum>w\<leftarrow>ws. \<bar>w\<bar>)" using sum_abs_nonneg [of ws] by simp
  have whole: "magnitude_bound u \<eta> k' m' a' \<le> \<Omega>"
    if "k' \<le> k + length (w # ws)" and "0 \<le> m'"
      and "m' \<le> m + \<bar>c\<bar> * (\<Sum>w\<leftarrow>w # ws. \<bar>w\<bar>)" and "0 \<le> a'"
      and "a' \<le> a + 2 * real (length (w # ws))" for k' m' a'
    using magnitude_bound_mono [OF u that] Cons.prems(4) by simp
  have w: "approximates u \<eta> 0 \<bar>w\<bar> 0 w w" by (rule approximates_exact [OF u]) simp_all
  have "magnitude_bound u \<eta> (Suc 0) (\<bar>c\<bar> * \<bar>w\<bar>) (\<bar>c\<bar> * 0 + 1) \<le> \<Omega>"
    using m0 s0 Cons.prems(2) by (intro whole) (simp_all add: algebra_simps)
  from approximates_mult [OF r w _ this]
  have "approximates u \<eta> (Suc 0) (\<bar>c\<bar> * \<bar>w\<bar>) 1 (rnd (c * w)) (c * w)"
    by (simp add: mult.commute)
  from approximates_weaken [OF this u, of k "\<bar>c\<bar> * \<bar>w\<bar>" 1] Cons.prems(3)
  have adv: "approximates u \<eta> k (\<bar>c\<bar> * \<bar>w\<bar>) 1 (rnd (c * w)) (c * w)" by simp
  have "magnitude_bound u \<eta> (Suc k) (m + \<bar>c\<bar> * \<bar>w\<bar>) (a + 1 + 1) \<le> \<Omega>"
    using m0 s0 Cons.prems(2) by (intro whole) (simp_all add: algebra_simps)
  from approximates_add [OF r Cons.prems(1) adv Cons.prems(2) _ this]
  have "approximates u \<eta> (Suc k) (m + \<bar>c\<bar> * \<bar>w\<bar>) (a + 1 + 1) (rnd (xh + rnd (c * w))) (x + c * w)"
    by simp
  then have step:
    "approximates u \<eta> (Suc k) (m + \<bar>c\<bar> * \<bar>w\<bar>) (a + 2) (rnd (xh + rnd (c * w))) (x + c * w)"
    by (simp only: add.assoc one_add_one)
  have e: "Suc k + length ws = k + length (w # ws)"
    "m + \<bar>c\<bar> * \<bar>w\<bar> + \<bar>c\<bar> * (\<Sum>w\<leftarrow>ws. \<bar>w\<bar>) = m + \<bar>c\<bar> * (\<Sum>w\<leftarrow>w # ws. \<bar>w\<bar>)"
    "a + 2 + 2 * real (length ws) = a + 2 * real (length (w # ws))"
    "x + c * w + c * sum_list ws = x + c * sum_list (w # ws)"
    by (simp_all add: algebra_simps)
  from Cons.prems(2) have a2: "0 \<le> a + 2" by simp
  have k1: "1 \<le> Suc k" by simp
  from Cons.IH [OF step a2 k1] Cons.prems(4) show ?case
    unfolding e by simp
qed


lemma width_pen_error:
  fixes ws :: "real list" and g t h \<tau> u \<eta> \<Omega> :: real and it :: bool
  assumes r: "rounds rnd u \<eta> \<Omega>" and \<tau>: "0 \<le> \<tau>"
  defines "n \<equiv> length ws" and "A \<equiv> (\<Sum>w\<leftarrow>ws. \<bar>w\<bar>)"
  defines "absI \<equiv> (if it then \<bar>h\<bar> * \<tau> else 0)"
  defines "m \<equiv> 2 * (\<bar>g\<bar> * A + \<bar>t\<bar>) + absI" and "a \<equiv> (\<bar>g\<bar> + 2) * real n + 5"
  assumes G: "magnitude_bound u \<eta> (2 * n + 4) (A + m) a \<le> \<Omega>"
  defines "W \<equiv> (let rx = rnd (rnd (fold (\<lambda>w acc. rnd (acc + w)) ws 0 * g) + t)
                in if it then rnd (rx + rnd (h * \<tau>)) else rx)"
  shows "\<bar>W - (fold (\<lambda>w acc. rnd (acc + rnd (g * w))) ws 0 + t + (if it then h * \<tau> else 0))\<bar>
           \<le> 3 * rounding_bound u \<eta> (2 * n + 4) m a"
    and "\<bar>W - (- (fold (\<lambda>w acc. rnd (acc + rnd (- g * w))) ws (rnd (W - t)) - rnd (W - t)) + t +
               (if it then h * \<tau> else 0))\<bar>
           \<le> 3 * rounding_bound u \<eta> (2 * n + 4) m a"
proof -
  note u = rounds_nonneg [OF r]
  define I where "I = (if it then h * \<tau> else 0)"
  define S where "S = sum_list ws"
  define Sh where "Sh = fold (\<lambda>w acc. rnd (acc + w)) ws 0"
  define Rh where "Rh = rnd (rnd (Sh * g) + t)"
  have A0: "0 \<le> A" unfolding A_def by (rule sum_abs_nonneg)
  have I0: "0 \<le> absI" using \<tau> by (simp add: absI_def)
  have gA: "0 \<le> \<bar>g\<bar> * A" using A0 by simp
  have m0: "0 \<le> m" using gA I0 by (simp add: m_def)
  have gn: "0 \<le> \<bar>g\<bar> * real n" by simp
  have a0: "0 \<le> a" using gn by (simp add: a_def algebra_simps)
  have whole: "magnitude_bound u \<eta> k' m' a' \<le> \<Omega>"
    if "k' \<le> 2 * n + 4" and "0 \<le> m'" and "m' \<le> A + m" and "0 \<le> a'" and "a' \<le> a"
    for k' m' a'
    using magnitude_bound_mono [OF u that] G by simp
  have bound: "rounding_bound u \<eta> k' m' a' \<le> rounding_bound u \<eta> (2 * n + 4) m a"
    if "k' \<le> 2 * n + 4" and "0 \<le> m'" and "m' \<le> m" and "0 \<le> a'" and "a' \<le> a"
    for k' m' a'
    by (rule rounding_bound_mono [OF u that])
  have B0: "0 \<le> rounding_bound u \<eta> (2 * n + 4) m a"
    by (rule rounding_bound_nonneg [OF u m0 a0])
  have z: "approximates u \<eta> 0 0 0 0 0" by (rule approximates_exact [OF u]) simp_all
  have "magnitude_bound u \<eta> (0 + length ws) (0 + (\<Sum>w\<leftarrow>ws. \<bar>w\<bar>)) (0 + real (length ws)) \<le> \<Omega>"
    using A0 m0 gn by (intro whole) (simp_all add: n_def A_def a_def algebra_simps)
  from fold_add_approximates [OF r z _ this]
  have Sh: "approximates u \<eta> n A (real n) Sh S"
    by (simp add: n_def A_def Sh_def S_def)
  have "magnitude_bound u \<eta> (Suc n) (\<bar>g\<bar> * A) (\<bar>g\<bar> * real n + 1) \<le> \<Omega>"
    using A0 m0 gA I0 gn by (intro whole) (simp_all add: m_def a_def algebra_simps)
  from approximates_mult [OF r Sh _ this]
  have Mh: "approximates u \<eta> (Suc n) (\<bar>g\<bar> * A) (\<bar>g\<bar> * real n + 1) (rnd (Sh * g)) (S * g)"
    by simp
  have th: "approximates u \<eta> (Suc n) \<bar>t\<bar> 0 t t" by (rule approximates_exact [OF u]) simp_all
  have "magnitude_bound u \<eta> (Suc (Suc n)) (\<bar>g\<bar> * A + \<bar>t\<bar>) (\<bar>g\<bar> * real n + 1 + 0 + 1) \<le> \<Omega>"
    using A0 m0 gA I0 gn by (intro whole) (simp_all add: m_def a_def algebra_simps)
  from approximates_add [OF r Mh th _ _ this] gn
  have Rh: "approximates u \<eta> (Suc (Suc n)) (\<bar>g\<bar> * A + \<bar>t\<bar>) (\<bar>g\<bar> * real n + 2) Rh (S * g + t)"
    by (simp add: Rh_def add.assoc)
  have Wh: "approximates u \<eta> (n + 3) (\<bar>g\<bar> * A + \<bar>t\<bar> + absI) (\<bar>g\<bar> * real n + 4) W (S * g + t + I)"
  proof (cases it)
    case True
    have hh: "approximates u \<eta> 0 \<bar>h\<bar> 0 h h" by (rule approximates_exact [OF u]) simp_all
    have "magnitude_bound u \<eta> (Suc 0) (\<bar>\<tau>\<bar> * \<bar>h\<bar>) (\<bar>\<tau>\<bar> * 0 + 1) \<le> \<Omega>"
      using A0 m0 gA I0 gn \<tau> True
      by (intro whole) (simp_all add: m_def a_def absI_def algebra_simps)
    from approximates_mult [OF r hh _ this]
    have "approximates u \<eta> (Suc 0) (\<bar>h\<bar> * \<tau>) 1 (rnd (h * \<tau>)) (h * \<tau>)"
      using \<tau> by (simp add: mult.commute)
    from approximates_weaken [OF this u, of "Suc (Suc n)" "\<bar>h\<bar> * \<tau>" 1]
    have ih: "approximates u \<eta> (Suc (Suc n)) (\<bar>h\<bar> * \<tau>) 1 (rnd (h * \<tau>)) (h * \<tau>)" by simp
    have "magnitude_bound u \<eta> (Suc (Suc (Suc n))) (\<bar>g\<bar> * A + \<bar>t\<bar> + \<bar>h\<bar> * \<tau>)
            (\<bar>g\<bar> * real n + 2 + 1 + 1) \<le> \<Omega>"
      using A0 m0 gA I0 gn \<tau> True
      by (intro whole) (simp_all add: m_def a_def absI_def algebra_simps)
    from approximates_add [OF r Rh ih _ _ this] gn
    have "approximates u \<eta> (Suc (Suc (Suc n))) (\<bar>g\<bar> * A + \<bar>t\<bar> + \<bar>h\<bar> * \<tau>) (\<bar>g\<bar> * real n + 2 + 1 + 1)
            (rnd (Rh + rnd (h * \<tau>))) (S * g + t + h * \<tau>)"
      by simp
    moreover have "\<bar>g\<bar> * real n + 2 + 1 + 1 = \<bar>g\<bar> * real n + 4" by simp
    moreover have "Suc (Suc (Suc n)) = n + 3" by simp
    ultimately show ?thesis
      using True by (simp only: W_def Rh_def Sh_def Let_def absI_def I_def if_True)
  next
    case False
    from approximates_weaken [OF Rh u, of "n + 3" "\<bar>g\<bar> * A + \<bar>t\<bar>" "\<bar>g\<bar> * real n + 4"] gn
    have "approximates u \<eta> (n + 3) (\<bar>g\<bar> * A + \<bar>t\<bar>) (\<bar>g\<bar> * real n + 4) Rh (S * g + t)" by simp
    then show ?thesis
      using False by (simp add: W_def Rh_def Sh_def Let_def absI_def I_def)
  qed
  have eW: "\<bar>W - (S * g + t + I)\<bar> \<le> rounding_bound u \<eta> (2 * n + 4) m a"
  proof -
    have "rounding_bound u \<eta> (n + 3) (\<bar>g\<bar> * A + \<bar>t\<bar> + absI) (\<bar>g\<bar> * real n + 4)
            \<le> rounding_bound u \<eta> (2 * n + 4) m a"
      using A0 gA I0 gn by (intro bound) (simp_all add: m_def a_def algebra_simps)
    with approximates_bound [OF Wh] show ?thesis by simp
  qed
  show "\<bar>W - (fold (\<lambda>w acc. rnd (acc + rnd (g * w))) ws 0 + t + (if it then h * \<tau> else 0))\<bar>
           \<le> 3 * rounding_bound u \<eta> (2 * n + 4) m a"
  proof -
    define P where "P = fold (\<lambda>w acc. rnd (acc + rnd (g * w))) ws 0"
    have z1: "approximates u \<eta> 1 0 0 0 0" by (rule approximates_exact [OF u]) simp_all
    have "magnitude_bound u \<eta> (1 + length ws) (0 + \<bar>g\<bar> * (\<Sum>w\<leftarrow>ws. \<bar>w\<bar>))
            (0 + 2 * real (length ws)) \<le> \<Omega>"
      using A0 m0 gA I0 gn
      by (intro whole) (simp_all add: n_def [symmetric] A_def [symmetric] m_def a_def algebra_simps)
    from fold_pen_approximates [OF r z1 _ _ this]
    have "approximates u \<eta> (1 + n) (\<bar>g\<bar> * A) (2 * real n) P (g * S)"
      by (simp add: n_def A_def P_def S_def)
    from approximates_bound [OF this]
    have "\<bar>P - g * S\<bar> \<le> rounding_bound u \<eta> (1 + n) (\<bar>g\<bar> * A) (2 * real n)" .
    also have "\<dots> \<le> rounding_bound u \<eta> (2 * n + 4) m a"
      using A0 gA I0 gn by (intro bound) (simp_all add: m_def a_def algebra_simps)
    finally have eP: "\<bar>P - g * S\<bar> \<le> rounding_bound u \<eta> (2 * n + 4) m a" .
    have "W - (P + t + I) = (W - (S * g + t + I)) - (P - g * S)" by (simp add: algebra_simps)
    then have "\<bar>W - (P + t + I)\<bar> \<le> \<bar>W - (S * g + t + I)\<bar> + \<bar>P - g * S\<bar>" by linarith
    with eW eP B0 show ?thesis by (simp add: P_def I_def)
  qed
  show "\<bar>W - (- (fold (\<lambda>w acc. rnd (acc + rnd (- g * w))) ws (rnd (W - t)) - rnd (W - t)) + t +
               (if it then h * \<tau> else 0))\<bar>
           \<le> 3 * rounding_bound u \<eta> (2 * n + 4) m a"
  proof -
    define x0 where "x0 = rnd (W - t)"
    define P where "P = fold (\<lambda>w acc. rnd (acc + rnd (- g * w))) ws x0"
    have nt: "approximates u \<eta> (n + 3) \<bar>t\<bar> 0 (- t) (- t)" by (rule approximates_exact [OF u]) simp_all
    have "magnitude_bound u \<eta> (Suc (n + 3)) (\<bar>g\<bar> * A + \<bar>t\<bar> + absI + \<bar>t\<bar>)
            (\<bar>g\<bar> * real n + 4 + 0 + 1) \<le> \<Omega>"
      using A0 m0 gA I0 gn by (intro whole) (simp_all add: m_def a_def algebra_simps)
    from approximates_add [OF r Wh nt _ _ this] gn
    have x0: "approximates u \<eta> (n + 4) (\<bar>g\<bar> * A + \<bar>t\<bar> + absI + \<bar>t\<bar>) (\<bar>g\<bar> * real n + 5) x0 (S * g + I)"
      by (simp add: x0_def ac_simps)
    have "rounding_bound u \<eta> (n + 4) (\<bar>g\<bar> * A + \<bar>t\<bar> + absI + \<bar>t\<bar>) (\<bar>g\<bar> * real n + 5)
            \<le> rounding_bound u \<eta> (2 * n + 4) m a"
      using A0 gA I0 gn by (intro bound) (simp_all add: m_def a_def algebra_simps)
    with approximates_bound [OF x0]
    have ex: "\<bar>x0 - (S * g + I)\<bar> \<le> rounding_bound u \<eta> (2 * n + 4) m a" by simp
    have "magnitude_bound u \<eta> (n + 4 + length ws)
            (\<bar>g\<bar> * A + \<bar>t\<bar> + absI + \<bar>t\<bar> + \<bar>- g\<bar> * (\<Sum>w\<leftarrow>ws. \<bar>w\<bar>))
            (\<bar>g\<bar> * real n + 5 + 2 * real (length ws)) \<le> \<Omega>"
      using A0 m0 gA I0 gn
      by (intro whole) (simp_all add: n_def [symmetric] A_def [symmetric] m_def a_def algebra_simps)
    from fold_pen_approximates [OF r x0 _ _ this] gn
    have "approximates u \<eta> (n + 4 + n) (\<bar>g\<bar> * A + \<bar>t\<bar> + absI + \<bar>t\<bar> + \<bar>g\<bar> * A)
            (\<bar>g\<bar> * real n + 5 + 2 * real n) P (S * g + I + - g * S)"
      by (simp add: n_def A_def P_def S_def)
    from approximates_bound [OF this]
    have "\<bar>P - (S * g + I + - g * S)\<bar> \<le>
            rounding_bound u \<eta> (n + 4 + n) (\<bar>g\<bar> * A + \<bar>t\<bar> + absI + \<bar>t\<bar> + \<bar>g\<bar> * A)
              (\<bar>g\<bar> * real n + 5 + 2 * real n)" .
    also have "\<dots> \<le> rounding_bound u \<eta> (2 * n + 4) m a"
      using A0 gA I0 gn by (intro bound) (simp_all add: m_def a_def algebra_simps)
    finally have eP: "\<bar>P - I\<bar> \<le> rounding_bound u \<eta> (2 * n + 4) m a"
      by (simp add: algebra_simps)
    have "W - (- (P - x0) + t + I) = (W - (S * g + t + I)) + (P - I) - (x0 - (S * g + I))"
      by (simp add: algebra_simps)
    then have "\<bar>W - (- (P - x0) + t + I)\<bar> \<le>
                 \<bar>W - (S * g + t + I)\<bar> + \<bar>P - I\<bar> + \<bar>x0 - (S * g + I)\<bar>"
      by linarith
    with eW eP ex show ?thesis by (simp add: P_def x0_def I_def)
  qed
qed

subsection \<open>Exact arithmetic as a rounding\<close>

text \<open>
  With the identity for the rounding, the measuring and the drawing of a line in doubles
  are the measuring and the drawing of the sections above.
\<close>

lemma GetEnd_fl_exact: "GetEnd_fl (\<lambda>x. x) b = GetEnd b"
  by (simp add: GetEnd_fl_def GetEnd_def)

lemma limits_char_fl_exact:
  "limits_char_fl (\<lambda>x. x) F aTopLimit aBottomLimit ch st =
     limits_char F aTopLimit aBottomLimit ch st"
  by (cases "elem_at (m_glyphBoundingBoxes F) (glyph_index F ch)")
     (simp_all add: limits_char_fl_def limits_char_def GetEnd_fl_exact)

lemma limits_loop_fl_exact:
  "limits_loop_fl (\<lambda>x. x) F aTopLimit aBottomLimit aText st =
     limits_loop F aTopLimit aBottomLimit aText st"
proof (induction F aTopLimit aBottomLimit aText st rule: limits_loop.induct)
  case (1 F aTopLimit aBottomLimit st)
  then show ?case by simp
next
  case (2 F aTopLimit aBottomLimit ch rest st)
  show ?case
  proof (cases "ch = tilde")
    case True
    show ?thesis
    proof (cases rest)
      case Nil
      with True show ?thesis by simp
    next
      case (Cons ch' rest')
      show ?thesis
      proof (cases "limits_char F aTopLimit aBottomLimit ch' st")
        case (Inl e)
        with True Cons show ?thesis by (simp add: limits_char_fl_exact)
      next
        case (Inr st')
        with True Cons "2.IH"(1) [OF True Cons Inr] show ?thesis
          by (simp add: limits_char_fl_exact)
      qed
    qed
  next
    case False
    show ?thesis
    proof (cases "limits_char F aTopLimit aBottomLimit ch st")
      case (Inl e)
      with False show ?thesis by (simp add: limits_char_fl_exact)
    next
      case (Inr st')
      with False "2.IH"(2) [OF False Inr] show ?thesis
        by (simp add: limits_char_fl_exact)
    qed
  qed
qed

lemma ComputeStringBoundaryLimits_fl_exact:
  "ComputeStringBoundaryLimits_fl (\<lambda>x. x) F g aText aGlyphSize aGlyphThickness aTopLimit
     aBottomLimit =
   ComputeStringBoundaryLimits F g aText aGlyphSize aGlyphThickness aTopLimit aBottomLimit"
  by (simp add: ComputeStringBoundaryLimits_fl_def ComputeStringBoundaryLimits_def
      limits_loop_fl_exact)

lemma glyph_point_fl_exact: "glyph_point_fl (\<lambda>x. x) g gs xo = glyph_point g gs xo"
  by (rule ext) (simp add: glyph_point_fl_def glyph_point_def)

lemma computeOverbarVerticalPosition_fl_exact:
  "computeOverbarVerticalPosition_fl (\<lambda>x. x) g = computeOverbarVerticalPosition g"
  by (simp add: computeOverbarVerticalPosition_fl_def ComputeOverbarVerticalPosition_fl_def
      computeOverbarVerticalPosition_def ComputeOverbarVerticalPosition_def)

lemma draw_char_fl_exact:
  "draw_char_fl (\<lambda>x. x) F gs icomp ch st = draw_char F gs icomp ch st"
proof (cases "elem_at (m_glyphs F) (glyph_index F ch)")
  case (Inl e)
  then show ?thesis by (simp add: draw_char_fl_def draw_char_def)
next
  case gl: (Inr gl)
  show ?thesis
  proof (cases "elem_at (m_glyphBoundingBoxes F) (glyph_index F ch)")
    case (Inl e)
    with gl show ?thesis by (simp add: draw_char_fl_def draw_char_def)
  next
    case (Inr bbox)
    with gl show ?thesis
      by (simp add: draw_char_fl_def draw_char_def GetEnd_fl_exact glyph_point_fl_exact
          computeOverbarVerticalPosition_fl_exact Let_def)
  qed
qed

lemma draw_loop_fl_exact:
  "draw_loop_fl (\<lambda>x. x) F gs icomp aText st = draw_loop F gs icomp aText st"
proof (induction F gs icomp aText st rule: draw_loop.induct)
  case (1 F gs icomp st)
  then show ?case by simp
next
  case (2 F gs icomp ch rest st)
  show ?case
  proof (cases "ch = tilde")
    case True
    show ?thesis
    proof (cases rest)
      case Nil
      with True show ?thesis by simp
    next
      case (Cons ch' rest')
      let ?st0 = "if ch' \<noteq> tilde then st\<lparr>overbar := \<not> overbar st\<rparr> else st"
      show ?thesis
      proof (cases "draw_char F gs icomp ch' ?st0")
        case (Inl e)
        with True Cons show ?thesis by (simp add: draw_char_fl_exact)
      next
        case (Inr st')
        with True Cons "2.IH"(1) [OF True Cons Inr] show ?thesis
          by (simp add: draw_char_fl_exact)
      qed
    qed
  next
    case False
    show ?thesis
    proof (cases "draw_char F gs icomp ch st")
      case (Inl e)
      with False show ?thesis by (simp add: draw_char_fl_exact)
    next
      case (Inr st')
      with False "2.IH"(2) [OF False Inr] show ?thesis
        by (simp add: draw_char_fl_exact)
    qed
  qed
qed

lemma drawSingleLineText_fl_exact:
  "drawSingleLineText_fl (\<lambda>x. x) F aText g = drawSingleLineText F aText g"
proof -
  have j: "justify_horizontal_fl (\<lambda>x. x) ts g' = justify_horizontal ts g'" for ts g'
    by (simp add: justify_horizontal_fl_def justify_horizontal_def)
  have x: "draw_xOffset_fl (\<lambda>x. x) g' ts = draw_xOffset g' ts" for ts g'
    by (simp add: draw_xOffset_fl_def draw_xOffset_def)
  have i: "draw_overbar_italic_comp_fl (\<lambda>x. x) g = draw_overbar_italic_comp g"
    by (simp add: draw_overbar_italic_comp_fl_def draw_overbar_italic_comp_def
        computeOverbarVerticalPosition_fl_exact)
  have t: "computeTextLineSize_fl (\<lambda>x. x) F g aText = computeTextLineSize F g aText"
    by (simp add: computeTextLineSize_fl_def computeTextLineSize_def
        ComputeStringBoundaryLimits_fl_exact)
  have "drawSingleLineText_locals_fl (\<lambda>x. x) F aText g = drawSingleLineText_locals F aText g"
    by (cases "computeTextLineSize F g aText")
       (simp_all add: drawSingleLineText_locals_fl_def drawSingleLineText_locals_def t j x i
         draw_loop_fl_exact)
  then show ?thesis
    by (simp add: drawSingleLineText_fl_def drawSingleLineText_def)
qed

subsection \<open>The width of a line and the advances of its glyphs\<close>

lemma limits_char_fl_eq:
  "font_loaded F \<Longrightarrow>
   limits_char_fl rnd F aTopLimit aBottomLimit ch ls =
     Inr (ls\<lparr>result_x := rnd (result_x ls + vx (GetEnd_fl rnd (glyph_box F ch))),
             ymax := (if aTopLimit
                      then max (max (ymax ls) (GetY (glyph_box F ch)))
                             (vy (GetEnd_fl rnd (glyph_box F ch)))
                      else ymax ls),
             ymin := (if aBottomLimit
                      then min (min (ymin ls) (GetY (glyph_box F ch)))
                             (vy (GetEnd_fl rnd (glyph_box F ch)))
                      else ymin ls)\<rparr>)"
  by (simp add: limits_char_fl_def elem_at_glyph_index glyph_box_def)

lemma limits_char_fl_loaded:
  "font_loaded F \<Longrightarrow>
   \<exists>ls1. limits_char_fl rnd F aTopLimit aBottomLimit ch ls = Inr ls1 \<and>
     result_x ls1 = rnd (result_x ls + vx (GetEnd_fl rnd (glyph_box F ch)))"
  by (simp add: limits_char_fl_eq)

lemma draw_char_fl_loaded:
  "font_loaded F \<Longrightarrow>
   \<exists>st1. draw_char_fl rnd F gs icomp ch st = Inr st1 \<and>
     xOffset st1 = rnd (xOffset st + rnd (vx gs * vx (GetEnd_fl rnd (glyph_box F ch))))"
  by (simp add: draw_char_fl_def elem_at_glyph_index glyph_box_def Let_def)

lemma limits_loop_fl_widths:
  "font_loaded F \<Longrightarrow>
   \<exists>ls'. limits_loop_fl rnd F aTopLimit aBottomLimit aText ls = Inr ls' \<and>
     result_x ls' =
       fold (\<lambda>w acc. rnd (acc + w))
         (map (\<lambda>p. vx (GetEnd_fl rnd (glyph_box F (snd p)))) (line_glyphs aText ov))
         (result_x ls)"
proof (induction rnd F aTopLimit aBottomLimit aText ls arbitrary: ov
    rule: limits_loop_fl.induct)
  case (1 rnd F aTopLimit aBottomLimit ls)
  then show ?case by simp
next
  case (2 rnd F aTopLimit aBottomLimit ch rest ls)
  note fl = \<open>font_loaded F\<close>
  show ?case
  proof (cases "ch = tilde")
    case True
    show ?thesis
    proof (cases rest)
      case Nil
      with True show ?thesis by simp
    next
      case (Cons ch' rest')
      from limits_char_fl_loaded [OF fl, of rnd aTopLimit aBottomLimit ch' ls]
      obtain ls1 where l: "limits_char_fl rnd F aTopLimit aBottomLimit ch' ls = Inr ls1"
        and r1: "result_x ls1 = rnd (result_x ls + vx (GetEnd_fl rnd (glyph_box F ch')))"
        by blast
      from "2.IH"(1) [OF True Cons l fl, of "\<not> ov"] "2.IH"(1) [OF True Cons l fl, of ov]
      show ?thesis using True Cons l r1 by auto
    qed
  next
    case False
    from limits_char_fl_loaded [OF fl, of rnd aTopLimit aBottomLimit ch ls]
    obtain ls1 where l: "limits_char_fl rnd F aTopLimit aBottomLimit ch ls = Inr ls1"
      and r1: "result_x ls1 = rnd (result_x ls + vx (GetEnd_fl rnd (glyph_box F ch)))"
      by blast
    from "2.IH"(2) [OF False l fl, of ov]
    show ?thesis using False l r1 by auto
  qed
qed

lemma draw_loop_fl_pen:
  "font_loaded F \<Longrightarrow>
   \<exists>st'. draw_loop_fl rnd F gs icomp aText st = Inr st' \<and>
     xOffset st' =
       fold (\<lambda>w acc. rnd (acc + rnd (vx gs * w)))
         (map (\<lambda>p. vx (GetEnd_fl rnd (glyph_box F (snd p)))) (line_glyphs aText ov))
         (xOffset st)"
proof (induction rnd F gs icomp aText st arbitrary: ov rule: draw_loop_fl.induct)
  case (1 rnd F gs icomp st)
  then show ?case by simp
next
  case (2 rnd F gs icomp ch rest st)
  note fl = \<open>font_loaded F\<close>
  show ?case
  proof (cases "ch = tilde")
    case True
    show ?thesis
    proof (cases rest)
      case Nil
      with True show ?thesis by simp
    next
      case (Cons ch' rest')
      let ?st0 = "if ch' \<noteq> tilde then st\<lparr>overbar := \<not> overbar st\<rparr> else st"
      have x0: "xOffset ?st0 = xOffset st" by simp
      from draw_char_fl_loaded [OF fl, of rnd gs icomp ch' ?st0]
      obtain st1 where d: "draw_char_fl rnd F gs icomp ch' ?st0 = Inr st1"
        and x1: "xOffset st1 =
                   rnd (xOffset st + rnd (vx gs * vx (GetEnd_fl rnd (glyph_box F ch'))))"
        unfolding x0 by blast
      from "2.IH"(1) [OF True Cons d fl, of "\<not> ov"] "2.IH"(1) [OF True Cons d fl, of ov]
      show ?thesis using True Cons d x1 by auto
    qed
  next
    case False
    from draw_char_fl_loaded [OF fl, of rnd gs icomp ch st]
    obtain st1 where d: "draw_char_fl rnd F gs icomp ch st = Inr st1"
      and x1: "xOffset st1 =
                 rnd (xOffset st + rnd (vx gs * vx (GetEnd_fl rnd (glyph_box F ch))))"
      by blast
    from "2.IH"(2) [OF False d fl, of ov]
    show ?thesis using False d x1 by auto
  qed
qed

lemma ComputeStringBoundaryLimits_fl_loaded:
  assumes "font_loaded F"
  shows "\<exists>r. ComputeStringBoundaryLimits_fl rnd F g aText (glyphSize g) (lineWidth g)
                aTopLimit aBottomLimit = Inr r \<and>
           result r =
             VECTOR2D
               (let rx = rnd (rnd (fold (\<lambda>w acc. rnd (acc + w)) (glyph_widths rnd F aText) 0 *
                                     vx (glyphSize g)) + lineWidth g)
                in if fontItalic g then rnd (rx + rnd (vy (glyphSize g) * ITALIC_TILT)) else rx)
               (vy (glyphSize g))"
  using limits_loop_fl_widths [OF assms, of rnd aTopLimit aBottomLimit aText
      "\<lparr>result_x = 0, ymax = 0, ymin = 0\<rparr>" False]
  by (auto simp: ComputeStringBoundaryLimits_fl_def Let_def glyph_widths_def)

lemma draw_xOffset_fl_line:
  "draw_xOffset_fl rnd (justify_horizontal_fl rnd ts (Save (Translate v g))) ts' =
     draw_xOffset_fl rnd g ts'"
  by (simp add: draw_xOffset_fl_def justify_horizontal_fl_def gal_ops
      split: EDA_TEXT_HJUSTIFY_T.splits)

lemma drawSingleLineText_locals_fl_loaded:
  assumes "font_loaded F"
  shows "\<exists>ts st. computeTextLineSize_fl rnd F g aText = Inr ts \<and>
           drawSingleLineText_locals_fl rnd F aText g = Inr st \<and>
           xOffset st =
             fold (\<lambda>w acc. rnd (acc + rnd (vx (draw_glyphSize g) * w)))
               (glyph_widths rnd F aText) (draw_xOffset_fl rnd g ts)"
proof -
  from ComputeStringBoundaryLimits_fl_loaded [OF assms, of rnd g aText False False]
  obtain r where "ComputeStringBoundaryLimits_fl rnd F g aText (glyphSize g) (lineWidth g)
                    False False = Inr r"
    by blast
  then have ts: "computeTextLineSize_fl rnd F g aText = Inr (result r)"
    by (simp add: computeTextLineSize_fl_def)
  let ?g3 = "justify_horizontal_fl rnd (result r)
               (Save (Translate (VECTOR2D (rnd (lineWidth g / 2)) 0) g))"
  let ?st0 = "\<lparr>overbar = False, last_had_overbar = False,
               xOffset = draw_xOffset_fl rnd ?g3 (result r), gal = ?g3\<rparr>"
  from draw_loop_fl_pen [OF assms, of rnd "draw_glyphSize g" "draw_overbar_italic_comp_fl rnd g"
      aText ?st0 False]
  obtain st where d: "draw_loop_fl rnd F (draw_glyphSize g) (draw_overbar_italic_comp_fl rnd g)
      aText ?st0 = Inr st"
    and x: "xOffset st =
              fold (\<lambda>w acc. rnd (acc + rnd (vx (draw_glyphSize g) * w)))
                (glyph_widths rnd F aText) (draw_xOffset_fl rnd g (result r))"
    by (auto simp: glyph_widths_def draw_xOffset_fl_line)
  from ts d have "drawSingleLineText_locals_fl rnd F aText g = Inr st"
    by (simp add: drawSingleLineText_locals_fl_def Let_def)
  with ts x show ?thesis by blast
qed

lemma computeTextLineSize_fl_result:
  "ComputeStringBoundaryLimits_fl rnd F g aText (glyphSize g) (lineWidth g) aTopLimit
     aBottomLimit = Inr r \<Longrightarrow>
   computeTextLineSize_fl rnd F g aText = Inr ts \<Longrightarrow> font_loaded F \<Longrightarrow> ts = result r"
  using ComputeStringBoundaryLimits_fl_loaded [of F rnd g aText aTopLimit aBottomLimit]
    ComputeStringBoundaryLimits_fl_loaded [of F rnd g aText False False]
  by (auto simp: computeTextLineSize_fl_def split: sum.splits)

lemma ITALIC_TILT_nonneg: "0 \<le> ITALIC_TILT"
  by (simp add: ITALIC_TILT_def)

text \<open>
  C4, as amended. For every single-line text in a loaded font, with the glyph size and the
  line width of the GAL, the x component that \<open>ComputeStringBoundaryLimits\<close> returns is, up
  to the rounding of the operations, the sum of the advances that \<open>drawSingleLineText\<close>
  accumulates in \<open>xOffset\<close>, taken from where \<open>xOffset\<close> starts and with the sign turned for
  mirrored text (whose advances are negative), plus the line width, plus
  \<open>glyphSize.y * ITALIC_TILT\<close> when the font is italic. When every operation rounds its
  result \<open>x\<close> with an error of at most \<open>u * \<bar>x\<bar> + \<eta>\<close>, as long as the values stay within
  the range of the rounding, the two differ by at most
  \<open>3 * (((1 + u)^(2 * n + 4) - 1) * m + (1 + u)^(2 * n + 4) * a * \<eta>)\<close>, where \<open>n\<close> is
  the number of glyphs, \<open>m\<close> is \<open>line_scale\<close> and \<open>a\<close> is \<open>line_roundings\<close>. In exact
  arithmetic, where \<open>u\<close> and \<open>\<eta>\<close> are 0, they are equal.
\<close>

theorem line_width_and_advances:
  assumes "font_loaded F" and "rounds rnd u \<eta> \<Omega>"
    and "magnitude_bound u \<eta> (2 * length (line_glyphs aText False) + 4)
           ((\<Sum>w\<leftarrow>glyph_widths rnd F aText. \<bar>w\<bar>) + line_scale rnd F g aText)
           (line_roundings g aText) \<le> \<Omega>"
  shows "\<exists>r st.
           ComputeStringBoundaryLimits_fl rnd F g aText (glyphSize g) (lineWidth g)
             aTopLimit aBottomLimit = Inr r \<and>
           drawSingleLineText_locals_fl rnd F aText g = Inr st \<and>
           \<bar>vx (result r) -
             ((if textMirrored g then - (xOffset st - draw_xOffset_fl rnd g (result r))
               else xOffset st - draw_xOffset_fl rnd g (result r)) +
              lineWidth g +
              (if fontItalic g then vy (glyphSize g) * ITALIC_TILT else 0))\<bar>
           \<le> 3 * rounding_bound u \<eta> (2 * length (line_glyphs aText False) + 4)
                 (line_scale rnd F g aText) (line_roundings g aText)"
proof -
  let ?ws = "glyph_widths rnd F aText"
  let ?W = "let rx = rnd (rnd (fold (\<lambda>w acc. rnd (acc + w)) ?ws 0 * vx (glyphSize g)) +
                        lineWidth g)
            in if fontItalic g then rnd (rx + rnd (vy (glyphSize g) * ITALIC_TILT)) else rx"
  have n: "length ?ws = length (line_glyphs aText False)"
    by (simp add: glyph_widths_def)
  from ComputeStringBoundaryLimits_fl_loaded [OF assms(1), of rnd g aText aTopLimit aBottomLimit]
  obtain r where r: "ComputeStringBoundaryLimits_fl rnd F g aText (glyphSize g) (lineWidth g)
                       aTopLimit aBottomLimit = Inr r"
    and w: "result r = VECTOR2D ?W (vy (glyphSize g))"
    by blast
  from drawSingleLineText_locals_fl_loaded [OF assms(1), of rnd g aText]
  obtain ts st where ts: "computeTextLineSize_fl rnd F g aText = Inr ts"
    and st: "drawSingleLineText_locals_fl rnd F aText g = Inr st"
    and x: "xOffset st =
              fold (\<lambda>w acc. rnd (acc + rnd (vx (draw_glyphSize g) * w))) ?ws
                (draw_xOffset_fl rnd g ts)"
    by blast
  from computeTextLineSize_fl_result [OF r ts assms(1)] have tr: "ts = result r" .
  have G: "magnitude_bound u \<eta> (2 * length ?ws + 4)
             ((\<Sum>w\<leftarrow>?ws. \<bar>w\<bar>) +
              (2 * (\<bar>vx (glyphSize g)\<bar> * (\<Sum>w\<leftarrow>?ws. \<bar>w\<bar>) + \<bar>lineWidth g\<bar>) +
               (if fontItalic g then \<bar>vy (glyphSize g)\<bar> * ITALIC_TILT else 0)))
             ((\<bar>vx (glyphSize g)\<bar> + 2) * real (length ?ws) + 5) \<le> \<Omega>"
    using assms(3) unfolding n by (simp add: line_scale_def line_roundings_def)
  note e = width_pen_error [OF assms(2) ITALIC_TILT_nonneg G]
  have "\<bar>vx (result r) -
             ((if textMirrored g then - (xOffset st - draw_xOffset_fl rnd g (result r))
               else xOffset st - draw_xOffset_fl rnd g (result r)) +
              lineWidth g +
              (if fontItalic g then vy (glyphSize g) * ITALIC_TILT else 0))\<bar>
           \<le> 3 * rounding_bound u \<eta> (2 * length ?ws + 4)
                 (2 * (\<bar>vx (glyphSize g)\<bar> * (\<Sum>w\<leftarrow>?ws. \<bar>w\<bar>) + \<bar>lineWidth g\<bar>) +
                  (if fontItalic g then \<bar>vy (glyphSize g)\<bar> * ITALIC_TILT else 0))
                 ((\<bar>vx (glyphSize g)\<bar> + 2) * real (length ?ws) + 5)"
  proof (cases "textMirrored g")
    case True
    with e(2) show ?thesis
      unfolding x tr w by (simp add: draw_xOffset_fl_def draw_glyphSize_def)
  next
    case False
    with e(1) show ?thesis
      unfolding x tr w by (simp add: draw_xOffset_fl_def draw_glyphSize_def)
  qed
  then have "\<bar>vx (result r) -
             ((if textMirrored g then - (xOffset st - draw_xOffset_fl rnd g (result r))
               else xOffset st - draw_xOffset_fl rnd g (result r)) +
              lineWidth g +
              (if fontItalic g then vy (glyphSize g) * ITALIC_TILT else 0))\<bar>
           \<le> 3 * rounding_bound u \<eta> (2 * length (line_glyphs aText False) + 4)
                 (line_scale rnd F g aText) (line_roundings g aText)"
    unfolding n by (simp add: line_scale_def line_roundings_def)
  with r st show ?thesis by blast
qed

lemma example_rnd_rounds: "rounds example_rnd 0 (1 / 2048) \<Omega>"
proof -
  have "\<bar>example_rnd x - x\<bar> \<le> 1 / 2048" for x
  proof -
    define d where "d = real_of_int (round (x * 1024)) - x * 1024"
    have d: "\<bar>d\<bar> \<le> 1 / 2"
      unfolding d_def by (rule of_int_round_abs_le)
    have e: "example_rnd x - x = d / 1024"
      by (simp add: example_rnd_def d_def field_simps)
    have "\<bar>example_rnd x - x\<bar> = \<bar>d / 1024\<bar>" by (simp only: e)
    also have "\<dots> = \<bar>d\<bar> / 1024" by simp
    finally show ?thesis using d by simp
  qed
  then show ?thesis by (simp add: rounds_def)
qed

lemma example_widths:
  "glyph_widths example_rnd example_font (utf8 ''A'') = [1]"
  "glyph_widths example_rnd example_font (utf8 ''BB'') = [717 / 1024, 717 / 1024]"
  by (simp_all add: glyph_widths_def utf8_def tilde_def example_font_A example_font_B
      GetEnd_fl_def example_rnd_def round_def)

text \<open>
  The claim as it stands fails wherever the line width is not 0: for the text \<open>A\<close> with
  glyphs of size 10 and lines of width 1 the width computed is 11 and the advances sum to
  10. (These numbers are integers, and no operation rounds.)
\<close>

theorem line_width_exceeds_advances:
  "ComputeStringBoundaryLimits_fl example_rnd example_font example_gal (utf8 ''A'')
     (glyphSize example_gal) (lineWidth example_gal) False False =
     Inr \<lparr>result = VECTOR2D 11 10, topLimit = None, bottomLimit = None\<rparr> \<and>
   map_sum id xOffset
     (drawSingleLineText_locals_fl example_rnd example_font (utf8 ''A'') example_gal) = Inr 10"
proof -
  have "ComputeStringBoundaryLimits_fl example_rnd example_font example_gal (utf8 ''A'')
     (glyphSize example_gal) (lineWidth example_gal) False False =
     Inr \<lparr>result = VECTOR2D 11 10, topLimit = None, bottomLimit = None\<rparr>"
    by (simp add: ComputeStringBoundaryLimits_fl_def limits_char_fl_eq [OF example_font_loaded]
        utf8_def tilde_def example_font_A GetEnd_fl_def example_gal_def example_rnd_def Let_def)
  moreover from drawSingleLineText_locals_fl_loaded [OF example_font_loaded,
      of example_rnd example_gal "utf8 ''A''"]
  have "map_sum id xOffset
     (drawSingleLineText_locals_fl example_rnd example_font (utf8 ''A'') example_gal) = Inr 10"
    by (auto simp: example_widths draw_xOffset_fl_def draw_glyphSize_def example_gal_def
        example_rnd_def)
  ultimately show ?thesis by simp
qed

text \<open>
  The text \<open>BB\<close> in the example font, with glyphs of size 3/2 and lines of width 1, and
  with the rounding to multiples of \<open>2^-10\<close>, whose error is at most \<open>2^-11\<close>. The width of
  a glyph is read as 717/1024. The width of the line is 3175/1024 and the pen ends at
  2152/1024: the sum of the advances and the line width is 1/1024 more than the width.
\<close>

theorem line_width_and_advances_witness:
  "\<exists>r st.
     ComputeStringBoundaryLimits_fl example_rnd example_font
       (example_gal\<lparr>glyphSize := VECTOR2D (3 / 2) (3 / 2)\<rparr>) (utf8 ''BB'')
       (VECTOR2D (3 / 2) (3 / 2)) 1 True True = Inr r \<and>
     drawSingleLineText_locals_fl example_rnd example_font (utf8 ''BB'')
       (example_gal\<lparr>glyphSize := VECTOR2D (3 / 2) (3 / 2)\<rparr>) = Inr st \<and>
     vx (result r) = 3175 / 1024 \<and> xOffset st = 2152 / 1024 \<and>
     \<bar>vx (result r) - (xOffset st + 1)\<bar> \<le> 9 / 512"
proof -
  let ?g = "example_gal\<lparr>glyphSize := VECTOR2D (3 / 2) (3 / 2)\<rparr>"
  let ?t = "utf8 ''BB''"
  have gs: "glyphSize ?g = VECTOR2D (3 / 2) (3 / 2)" "lineWidth ?g = 1"
    by (simp_all add: example_gal_def)
  have n: "length (line_glyphs ?t False) = 2"
    by (simp add: utf8_def tilde_def)
  have m: "magnitude_bound 0 (1 / 2048) (2 * length (line_glyphs ?t False) + 4)
             ((\<Sum>w\<leftarrow>glyph_widths example_rnd example_font ?t. \<bar>w\<bar>) +
              line_scale example_rnd example_font ?g ?t)
             (line_roundings ?g ?t) \<le> 1000"
    by (simp add: magnitude_bound_def line_scale_def line_roundings_def example_widths n
        example_gal_def)
  from line_width_and_advances [OF example_font_loaded example_rnd_rounds m, of True True]
  obtain r st where
    r: "ComputeStringBoundaryLimits_fl example_rnd example_font ?g ?t (glyphSize ?g)
          (lineWidth ?g) True True = Inr r"
    and st: "drawSingleLineText_locals_fl example_rnd example_font ?t ?g = Inr st"
    and b: "\<bar>vx (result r) - (xOffset st + 1)\<bar> \<le> 9 / 512"
    by (auto simp: rounding_bound_def line_roundings_def n example_gal_def draw_xOffset_fl_def)
  from ComputeStringBoundaryLimits_fl_loaded [OF example_font_loaded,
      of example_rnd ?g ?t True True] r
  have w: "vx (result r) = 3175 / 1024"
    by (auto simp: example_widths example_gal_def example_rnd_def round_def)
  from drawSingleLineText_locals_fl_loaded [OF example_font_loaded, of example_rnd ?g ?t] st
  have p: "xOffset st = 2152 / 1024"
    by (auto simp: example_widths draw_xOffset_fl_def draw_glyphSize_def example_gal_def
        example_rnd_def round_def)
  from r st w p b show ?thesis unfolding gs by blast
qed

section \<open>Properties of the groups\<close>

lemma fold_max_ge: "a \<le> fold max xs (a::nat)"
  by (induction xs arbitrary: a) (auto intro: order_trans [OF max.cobounded2])

lemma fold_max_bound: "x \<in> set xs \<Longrightarrow> x \<le> fold max xs (a::nat)"
proof (induction xs arbitrary: a)
  case Nil
  then show ?case by simp
next
  case (Cons y ys)
  show ?case
  proof (cases "x = y")
    case True
    then show ?thesis using fold_max_ge [of "max y a" ys] by simp
  next
    case False
    with Cons show ?thesis by simp
  qed
qed

lemma fresh_handle: "Suc (fold max xs 0) \<notin> set xs"
  using fold_max_bound [of "Suc (fold max xs 0)" xs 0] by auto

text \<open>
  C8. For the handle that \<open>BeginGroup\<close> returns, \<open>EndGroup\<close> and two calls of \<open>DeleteGroup\<close>
  on the handle return without an error; after the first of them the backend holds as many
  resources for groups as before \<open>BeginGroup\<close>, and the second leaves the state as it is.
\<close>

theorem group_double_delete:
  "case BeginGroup s of
     (handle, s1) \<Rightarrow>
       \<exists>s3. DeleteGroup handle (EndGroup s1) = Inr s3 \<and>
            group_resources s3 = group_resources s \<and>
            DeleteGroup handle s3 = Inr s3"
  using fresh_handle [of "displayListsGroup s"]
  by (simp add: BeginGroup_def EndGroup_def DeleteGroup_def group_resources_def Let_def)

end
